theory Spec2Isabelle
  imports Main
begin

section \<open>Data model of \<open>MongoStoreBase.ts\<close>\<close>

text \<open>
  Timestamps are JavaScript numbers holding epoch milliseconds; they are modelled as
  unbounded integers (the values the program handles, around \<open>10^12\<close>, are far inside the
  range where a double is an exact integer). The session payload is opaque to the store
  and is a type parameter.
\<close>

record 'p SessionData =
  sessionId :: string
  data :: 'p
  expiresMs :: int
  updatedAt :: int

datatype MongoSessionCleanupStrategy = native | interval

datatype MongoClient = MongoClient

text \<open>
  \<open>MongoStoreParams\<close>. A field that JavaScript may leave \<open>undefined\<close> is an option. The
  source tests the fields for truthiness, so an empty string counts as missing as well
  (\<open>falsy\<close> below).
\<close>

record MongoStoreParams =
  client :: "MongoClient option"
  dbName :: "string option"
  collection :: "string option"
  cleanupStrategy :: "MongoSessionCleanupStrategy option"
  ttlMs :: int
  prefix :: "string option"
  cleanupInterval :: "int option"

definition falsy :: "string option \<Rightarrow> bool" where
  "falsy s = (case s of None \<Rightarrow> True | Some x \<Rightarrow> x = [])"

text \<open>The value of \<open>s || ''\<close> and of a truthy string.\<close>

definition or_empty :: "string option \<Rightarrow> string" where
  "or_empty s = (case s of None \<Rightarrow> [] | Some x \<Rightarrow> x)"

datatype error = Error string | StorageError string | TypeError

section \<open>The storage layer\<close>

text \<open>
  Modelled from the spec: the document-database client (package \<open>mongodb\<close>) is not part
  of the repository. Section 6 of the specification lists the collection operations the
  engine consumes; they are modelled on a collection that is the list of its documents in
  natural order. \<open>createIndex\<close> records the call it receives and fails for the index
  names listed in \<open>failing\<close> (a storage fault); the data operations are the fault-free
  in-memory semantics. A query filter is a predicate on documents.
\<close>

record IndexSpec =
  idx_keys :: "string list"
  idx_name :: string
  idx_unique :: bool
  expireAfterSeconds :: "int option"

record 'p Collection =
  docs :: "'p SessionData list"
  createIndex_calls :: "IndexSpec list"
  failing :: "string list"

type_synonym handle = "string \<times> string"

type_synonym 'p Storage = "handle \<Rightarrow> 'p Collection"

definition createIndex :: "handle \<Rightarrow> IndexSpec \<Rightarrow> 'p Storage \<Rightarrow> (error + unit) \<times> 'p Storage" where
  "createIndex h spec w =
     (let c = w h;
          w' = w(h := c\<lparr>createIndex_calls := createIndex_calls c @ [spec]\<rparr>)
      in if idx_name spec \<in> set (failing c)
         then (Inl (StorageError (idx_name spec)), w')
         else (Inr (), w'))"

definition findOne :: "('p SessionData \<Rightarrow> bool) \<Rightarrow> 'p Collection \<Rightarrow> 'p SessionData option" where
  "findOne P c = List.find P (docs c)"

fun replace_first :: "('a \<Rightarrow> bool) \<Rightarrow> 'a \<Rightarrow> 'a list \<Rightarrow> 'a list" where
  "replace_first P y [] = []"
| "replace_first P y (x # xs) = (if P x then y # xs else x # replace_first P y xs)"

fun remove_first :: "('a \<Rightarrow> bool) \<Rightarrow> 'a list \<Rightarrow> 'a list" where
  "remove_first P [] = []"
| "remove_first P (x # xs) = (if P x then xs else x # remove_first P xs)"

text \<open>
  \<open>updateOne(filter, {$set: doc}, {upsert: true})\<close>, for a \<open>$set\<close> that assigns every
  field of the document as the one in \<open>set\<close> does: the first matching document becomes
  \<open>doc\<close>, and when nothing matches \<open>doc\<close> is inserted.
\<close>

definition updateOne :: "('p SessionData \<Rightarrow> bool) \<Rightarrow> 'p SessionData \<Rightarrow> 'p Collection \<Rightarrow> 'p Collection" where
  "updateOne P doc c =
     (if \<exists>x \<in> set (docs c). P x
      then c\<lparr>docs := replace_first P doc (docs c)\<rparr>
      else c\<lparr>docs := docs c @ [doc]\<rparr>)"

definition deleteOne :: "('p SessionData \<Rightarrow> bool) \<Rightarrow> 'p Collection \<Rightarrow> 'p Collection" where
  "deleteOne P c = c\<lparr>docs := remove_first P (docs c)\<rparr>"

definition deleteMany :: "('p SessionData \<Rightarrow> bool) \<Rightarrow> 'p Collection \<Rightarrow> 'p Collection" where
  "deleteMany P c = c\<lparr>docs := filter (\<lambda>d. \<not> P d) (docs c)\<rparr>"

definition find_toArray :: "('p SessionData \<Rightarrow> bool) \<Rightarrow> 'p Collection \<Rightarrow> 'p SessionData list" where
  "find_toArray P c = filter P (docs c)"

definition countDocuments :: "('p SessionData \<Rightarrow> bool) \<Rightarrow> 'p Collection \<Rightarrow> nat" where
  "countDocuments P c = length (filter P (docs c))"

text \<open>
  Modelled from the spec: \<open>millisecondsToSeconds\<close> comes from the package \<open>date-fns\<close>;
  the specification has the duration "converted to seconds, truncated".
\<close>

definition millisecondsToSeconds :: "int \<Rightarrow> int" where
  "millisecondsToSeconds ms = sgn ms * (\<bar>ms\<bar> div 1000)"

section \<open>The engine: class \<open>MongoStoreBase\<close>\<close>

record MongoStoreBase =
  hasInit :: bool
  config :: MongoStoreParams
  this_client :: "MongoClient option"
  this_collection :: "handle option"
  this_prefix :: string

definition constructor :: "MongoStoreParams \<Rightarrow> MongoStoreBase" where
  "constructor cfg =
     \<lparr>hasInit = False, config = cfg, this_client = None, this_collection = None,
      this_prefix = or_empty (prefix cfg)\<rparr>"

definition getSid :: "MongoStoreBase \<Rightarrow> string \<Rightarrow> string" where
  "getSid e sid = this_prefix e @ sid"

definition session_id_idx :: IndexSpec where
  "session_id_idx =
     \<lparr>idx_keys = [''sessionId''], idx_name = ''session_id_idx'', idx_unique = True,
      expireAfterSeconds = None\<rparr>"

definition session_id_expires_idx :: IndexSpec where
  "session_id_expires_idx =
     \<lparr>idx_keys = [''expiresMs'', ''sessionId''], idx_name = ''session_id_expires_idx'',
      idx_unique = False, expireAfterSeconds = None\<rparr>"

definition updated_at_ttl_idx :: "int \<Rightarrow> IndexSpec" where
  "updated_at_ttl_idx ttl =
     \<lparr>idx_keys = [''updatedAt''], idx_name = ''updated_at_ttl_idx'', idx_unique = False,
      expireAfterSeconds = Some (millisecondsToSeconds ttl)\<rparr>"

definition uses_native :: "MongoStoreParams \<Rightarrow> bool" where
  "uses_native cfg = (cleanupStrategy cfg = None \<or> cleanupStrategy cfg = Some native)"

text \<open>
  The result of an operation: what the promise settles to (\<open>Inl\<close> a rejection), the
  engine object and the storage afterwards.
\<close>

type_synonym ('a, 'p) result = "(error + 'a) \<times> MongoStoreBase \<times> 'p Storage"

definition init :: "MongoStoreBase \<Rightarrow> 'p Storage \<Rightarrow> (unit, 'p) result" where
  "init e w =
     (if this_client e = None then
        if client (config e) = None then
          (Inl (Error ''express-session-mongo: client not defined''), e, w)
        else if falsy (dbName (config e)) then
          (Inl (Error ''express-session-mongo: dbName not defined''), e, w)
        else if falsy (collection (config e)) then
          (Inl (Error ''express-session-mongo: collection not defined''), e, w)
        else
          let h = (or_empty (dbName (config e)), or_empty (collection (config e)));
              e1 = e\<lparr>this_client := client (config e), this_collection := Some h\<rparr>
          in case createIndex h session_id_idx w of
               (Inl err, w1) \<Rightarrow> (Inl err, e1, w1)
             | (Inr _, w1) \<Rightarrow>
                 (case createIndex h session_id_expires_idx w1 of
                    (Inl err, w2) \<Rightarrow> (Inl err, e1, w2)
                  | (Inr _, w2) \<Rightarrow>
                      if uses_native (config e) then
                        (case createIndex h (updated_at_ttl_idx (ttlMs (config e))) w2 of
                           (Inl err, w3) \<Rightarrow> (Inl err, e1, w3)
                         | (Inr _, w3) \<Rightarrow> (Inr (), e1\<lparr>hasInit := True\<rparr>, w3))
                      else (Inr (), e1\<lparr>hasInit := True\<rparr>, w2))
      else (Inr (), e, w))"

text \<open>
  Every operation awaits \<open>init\<close> first and then uses \<open>this.collection\<close>; on an object
  whose \<open>collection\<close> field was never assigned, the member access throws a TypeError.
\<close>

definition with_collection ::
  "MongoStoreBase \<Rightarrow> 'p Storage \<Rightarrow> (handle \<Rightarrow> MongoStoreBase \<Rightarrow> 'p Storage \<Rightarrow> ('a, 'p) result) \<Rightarrow> ('a, 'p) result" where
  "with_collection e w k =
     (case init e w of
        (Inl err, e1, w1) \<Rightarrow> (Inl err, e1, w1)
      | (Inr _, e1, w1) \<Rightarrow>
          (case this_collection e1 of
             None \<Rightarrow> (Inl TypeError, e1, w1)
           | Some h \<Rightarrow> k h e1 w1))"

text \<open>\<open>now\<close> is the value \<open>new Date().getTime()\<close> returns when the operation reads the clock.\<close>

definition get :: "MongoStoreBase \<Rightarrow> 'p Storage \<Rightarrow> int \<Rightarrow> string \<Rightarrow> ('p option, 'p) result" where
  "get e w now sid =
     (let formattedSid = getSid e sid in
      with_collection e w (\<lambda>h e1 w1.
        case findOne (\<lambda>d. now < expiresMs d \<and> sessionId d = formattedSid) (w1 h) of
          None \<Rightarrow> (Inr None, e1, w1)
        | Some resp \<Rightarrow> (Inr (Some (data resp)), e1, w1)))"

text \<open>
  \<open>set\<close> reads the clock twice: \<open>now\<close> for the expiry and \<open>now2\<close> (the later
  \<open>new Date()\<close>) for \<open>updatedAt\<close>.
\<close>

definition set_op :: "MongoStoreBase \<Rightarrow> 'p Storage \<Rightarrow> int \<Rightarrow> int \<Rightarrow> string \<Rightarrow> 'p \<Rightarrow> (unit, 'p) result" where
  "set_op e w now now2 sid session =
     with_collection e w (\<lambda>h e1 w1.
       let formattedSid = getSid e1 sid;
           msTtl = now + ttlMs (config e1)
       in (Inr (), e1,
           w1(h := updateOne (\<lambda>d. sessionId d = formattedSid)
                     \<lparr>sessionId = formattedSid, data = session, expiresMs = msTtl,
                      updatedAt = now2\<rparr> (w1 h))))"

definition destroy :: "MongoStoreBase \<Rightarrow> 'p Storage \<Rightarrow> string \<Rightarrow> (unit, 'p) result" where
  "destroy e w sid =
     with_collection e w (\<lambda>h e1 w1.
       let formattedSid = getSid e1 sid
       in (Inr (), e1, w1(h := deleteOne (\<lambda>d. sessionId d = formattedSid) (w1 h))))"

definition all_op :: "MongoStoreBase \<Rightarrow> 'p Storage \<Rightarrow> int \<Rightarrow> ('p list, 'p) result" where
  "all_op e w now =
     with_collection e w (\<lambda>h e1 w1.
       let results = find_toArray (\<lambda>d. now < expiresMs d) (w1 h)
       in (Inr (map data results), e1, w1))"

definition length_op :: "MongoStoreBase \<Rightarrow> 'p Storage \<Rightarrow> int \<Rightarrow> (nat, 'p) result" where
  "length_op e w now =
     with_collection e w (\<lambda>h e1 w1.
       (Inr (countDocuments (\<lambda>d. now < expiresMs d) (w1 h)), e1, w1))"

definition clear :: "MongoStoreBase \<Rightarrow> 'p Storage \<Rightarrow> (unit, 'p) result" where
  "clear e w =
     with_collection e w (\<lambda>h e1 w1. (Inr (), e1, w1(h := deleteMany (\<lambda>d. True) (w1 h))))"

definition touch :: "MongoStoreBase \<Rightarrow> 'p Storage \<Rightarrow> int \<Rightarrow> int \<Rightarrow> string \<Rightarrow> 'p \<Rightarrow> (unit, 'p) result" where
  "touch e w now now2 sid session =
     (case init e w of
        (Inl err, e1, w1) \<Rightarrow> (Inl err, e1, w1)
      | (Inr _, e1, w1) \<Rightarrow> set_op e1 w1 now now2 sid session)"

definition removeExpiredSessions :: "MongoStoreBase \<Rightarrow> 'p Storage \<Rightarrow> int \<Rightarrow> (unit, 'p) result" where
  "removeExpiredSessions e w now =
     with_collection e w (\<lambda>h e1 w1.
       (Inr (), e1, w1(h := deleteMany (\<lambda>d. expiresMs d < now) (w1 h))))"

section \<open>Concurrent callers of \<open>init\<close>\<close>

text \<open>
  \<open>init\<close> is an async function: a call runs without interruption up to its next
  \<open>await\<close>, and other callers run while it is suspended. A call is therefore a small
  machine over the shared engine object and storage; one step takes it from one
  suspension point to the next. The three suspension points are the awaited
  \<open>createIndex\<close> calls; the request is received by the storage when it is issued, and the
  caller resumes with its outcome.
\<close>

datatype init_pc =
    Init_start
  | Await_session_id_idx "error + unit"
  | Await_session_id_expires_idx "error + unit"
  | Await_updated_at_ttl_idx "error + unit"
  | Init_returned
  | Init_threw error

definition init_step :: "init_pc \<Rightarrow> MongoStoreBase \<Rightarrow> 'p Storage \<Rightarrow> init_pc \<times> MongoStoreBase \<times> 'p Storage" where
  "init_step pc e w =
     (case pc of
        Init_start \<Rightarrow>
          if this_client e = None then
            if client (config e) = None then
              (Init_threw (Error ''express-session-mongo: client not defined''), e, w)
            else if falsy (dbName (config e)) then
              (Init_threw (Error ''express-session-mongo: dbName not defined''), e, w)
            else if falsy (collection (config e)) then
              (Init_threw (Error ''express-session-mongo: collection not defined''), e, w)
            else
              let h = (or_empty (dbName (config e)), or_empty (collection (config e)));
                  e1 = e\<lparr>this_client := client (config e), this_collection := Some h\<rparr>
              in case createIndex h session_id_idx w of
                   (r, w1) \<Rightarrow> (Await_session_id_idx r, e1, w1)
          else (Init_returned, e, w)
      | Await_session_id_idx r \<Rightarrow>
          (case r of
             Inl err \<Rightarrow> (Init_threw err, e, w)
           | Inr _ \<Rightarrow>
               (case this_collection e of
                  None \<Rightarrow> (Init_threw TypeError, e, w)
                | Some h \<Rightarrow>
                    (case createIndex h session_id_expires_idx w of
                       (r2, w1) \<Rightarrow> (Await_session_id_expires_idx r2, e, w1))))
      | Await_session_id_expires_idx r \<Rightarrow>
          (case r of
             Inl err \<Rightarrow> (Init_threw err, e, w)
           | Inr _ \<Rightarrow>
               if uses_native (config e) then
                 (case this_collection e of
                    None \<Rightarrow> (Init_threw TypeError, e, w)
                  | Some h \<Rightarrow>
                      (case createIndex h (updated_at_ttl_idx (ttlMs (config e))) w of
                         (r3, w1) \<Rightarrow> (Await_updated_at_ttl_idx r3, e, w1)))
               else (Init_returned, e\<lparr>hasInit := True\<rparr>, w))
      | Await_updated_at_ttl_idx r \<Rightarrow>
          (case r of
             Inl err \<Rightarrow> (Init_threw err, e, w)
           | Inr _ \<Rightarrow> (Init_returned, e\<lparr>hasInit := True\<rparr>, w))
      | Init_returned \<Rightarrow> (Init_returned, e, w)
      | Init_threw err \<Rightarrow> (Init_threw err, e, w))"

text \<open>
  Any number of callers, numbered by naturals, share one engine. A schedule names the
  caller that runs next; \<open>run\<close> executes a schedule.
\<close>

type_synonym 'p system = "(nat \<Rightarrow> init_pc) \<times> MongoStoreBase \<times> 'p Storage"

fun run :: "nat list \<Rightarrow> 'p system \<Rightarrow> 'p system" where
  "run [] s = s"
| "run (i # sched) (ts, e, w) =
     (case init_step (ts i) e w of (pc, e', w') \<Rightarrow> run sched (ts(i := pc), e', w'))"

definition idle :: "nat \<Rightarrow> init_pc" where
  "idle i = Init_start"

definition calls_named :: "string \<Rightarrow> 'p Collection \<Rightarrow> nat" where
  "calls_named n c = length (filter (\<lambda>s. idx_name s = n) (createIndex_calls c))"

section \<open>Concrete engines and storages\<close>

definition empty_collection :: "'p Collection" where
  "empty_collection = \<lparr>docs = [], createIndex_calls = [], failing = []\<rparr>"

definition empty_storage :: "'p Storage" where
  "empty_storage h = empty_collection"

definition test_config :: "int \<Rightarrow> string option \<Rightarrow> MongoStoreParams" where
  "test_config ttl pfx =
     \<lparr>client = Some MongoClient, dbName = Some ''express-session'',
      collection = Some ''sessions'', cleanupStrategy = None, ttlMs = ttl, prefix = pfx,
      cleanupInterval = None\<rparr>"

definition test_handle :: handle where
  "test_handle = (''express-session'', ''sessions'')"

definition fresh_engine :: MongoStoreBase where
  "fresh_engine = constructor (test_config 10000 (Some ''p:''))"

definition sample_storage :: "nat Storage" where
  "sample_storage =
     empty_storage(test_handle :=
       \<lparr>docs = [\<lparr>sessionId = ''p:abc'', data = 7, expiresMs = 10000, updatedAt = 0\<rparr>,
                \<lparr>sessionId = ''p:old'', data = 3, expiresMs = 500, updatedAt = 0\<rparr>],
        createIndex_calls = [], failing = []\<rparr>)"

definition faulty_storage :: "nat Storage" where
  "faulty_storage =
     empty_storage(test_handle :=
       \<lparr>docs = [], createIndex_calls = [], failing = [''session_id_expires_idx'']\<rparr>)"

definition unconfigured_engine :: MongoStoreBase where
  "unconfigured_engine =
     constructor ((test_config 10000 None)\<lparr>dbName := None, collection := Some []\<rparr>)"

definition two_callers :: "nat system" where
  "two_callers = run [0, 1] (idle, fresh_engine, empty_storage)"

definition six_steps :: "nat system" where
  "six_steps = run [0, 1, 0, 2, 0, 0] (idle, fresh_engine, empty_storage)"

section \<open>Vocabulary of the properties\<close>

text \<open>
  The collection an engine binds to, and the indexes its setup sequence requests, in
  order.
\<close>

definition handle_of :: "MongoStoreParams \<Rightarrow> handle" where
  "handle_of cfg = (or_empty (dbName cfg), or_empty (collection cfg))"

definition schema :: "MongoStoreParams \<Rightarrow> IndexSpec list" where
  "schema cfg =
     [session_id_idx, session_id_expires_idx]
     @ (if uses_native cfg then [updated_at_ttl_idx (ttlMs cfg)] else [])"

text \<open>
  The suspension point of a caller (0 when it is not suspended inside the setup
  sequence), the storage after the first \<open>k\<close> index requests of the sequence, and
  the invariant of any number of concurrent callers: at most one of them is inside the
  sequence, and the storage has received a prefix of the sequence, once.
\<close>

fun stage :: "init_pc \<Rightarrow> nat" where
  "stage (Await_session_id_idx r) = 1"
| "stage (Await_session_id_expires_idx r) = 2"
| "stage (Await_updated_at_ttl_idx r) = 3"
| "stage pc = 0"

definition requested :: "MongoStoreParams \<Rightarrow> 'p Storage \<Rightarrow> nat \<Rightarrow> 'p Storage" where
  "requested cfg w0 k =
     w0(handle_of cfg := (w0 (handle_of cfg))
          \<lparr>createIndex_calls := createIndex_calls (w0 (handle_of cfg)) @ take k (schema cfg)\<rparr>)"

definition single_flight :: "MongoStoreParams \<Rightarrow> 'p Storage \<Rightarrow> 'p system \<Rightarrow> bool" where
  "single_flight cfg w0 s =
     (case s of (ts, e, w) \<Rightarrow>
        config e = cfg
        \<and> (\<exists>k \<le> length (schema cfg). w = requested cfg w0 k
              \<and> (\<forall>i. stage (ts i) = 0 \<or> stage (ts i) = k)
              \<and> (this_client e = None \<longrightarrow> k = 0))
        \<and> (\<forall>i j. stage (ts i) \<noteq> 0 \<and> stage (ts j) \<noteq> 0 \<longrightarrow> i = j)
        \<and> (this_client e \<noteq> None \<longrightarrow> this_collection e = Some (handle_of cfg)))"

text \<open>Initialization that has completed has assigned the client.\<close>

definition completed :: "'p system \<Rightarrow> bool" where
  "completed s = (case s of (ts, e, w) \<Rightarrow> hasInit e \<longrightarrow> this_client e \<noteq> None)"

section \<open>Initialization: basic facts\<close>

lemma init_ready: "this_client e = Some c \<Longrightarrow> init e w = (Inr (), e, w)"
  by (simp add: init_def)

lemma createIndex_docs: "createIndex h spec w = (r, w') \<Longrightarrow> docs (w' k) = docs (w k) \<and> failing (w' k) = failing (w k)"
  by (auto simp: createIndex_def Let_def split: if_splits)

lemma init_error_unchanged:
  "init e w = (Inl (Error m), e', w') \<Longrightarrow> e' = e \<and> w' = w"
  by (auto simp: init_def Let_def createIndex_def split: if_splits prod.splits sum.splits)

lemma init_Inr_client:
  "init e w = (Inr u, e', w') \<Longrightarrow> \<exists>c. this_client e' = Some c"
  by (cases "this_client e")
     (auto simp: init_def Let_def split: if_splits prod.splits sum.splits)

lemma init_Inr_again:
  "init e w = (Inr u, e', w') \<Longrightarrow> init e' w'' = (Inr (), e', w'')"
  using init_Inr_client init_ready by blast

lemma init_keeps:
  "init e w = (r, e', w') \<Longrightarrow> this_prefix e' = this_prefix e \<and> config e' = config e"
  by (cases "this_client e")
     (auto simp: init_def Let_def split: if_splits prod.splits sum.splits)

lemma init_docs:
  "init e w = (r, e', w') \<Longrightarrow> docs (w' k) = docs (w k)"
  by (cases "this_client e")
     (auto simp: init_def Let_def createIndex_def split: if_splits prod.splits sum.splits)

section \<open>Lists of documents keyed by \<open>sessionId\<close>\<close>

lemma distinct_key_head:
  "distinct (map f (x # xs)) \<Longrightarrow> f x = k \<Longrightarrow> \<forall>z \<in> set xs. f z \<noteq> k"
  by (auto simp: image_iff)

lemma find_unique_key:
  "distinct (map f xs) \<Longrightarrow> d \<in> set xs \<Longrightarrow> f d = k \<Longrightarrow>
   List.find (\<lambda>x. Q x \<and> f x = k) xs = (if Q d then Some d else None)"
proof (induction xs)
  case Nil
  then show ?case by simp
next
  case (Cons x xs)
  show ?case
  proof (cases "x = d")
    case True
    with Cons.prems have "\<forall>y \<in> set xs. f y \<noteq> k" using distinct_key_head[of f x xs k] by simp
    then have "List.find (\<lambda>x. Q x \<and> f x = k) xs = None" by (simp add: find_None_iff)
    with True Cons.prems show ?thesis by simp
  next
    case False
    with Cons.prems have "d \<in> set xs" "f x \<noteq> k" by auto
    with Cons show ?thesis by simp
  qed
qed

lemma filter_replace_first:
  "distinct (map f xs) \<Longrightarrow> f y = k \<Longrightarrow> \<exists>x \<in> set xs. f x = k \<Longrightarrow>
   filter (\<lambda>x. f x = k) (replace_first (\<lambda>x. f x = k) y xs) = [y]"
proof (induction xs)
  case Nil
  then show ?case by simp
next
  case (Cons x xs)
  show ?case
  proof (cases "f x = k")
    case True
    with Cons.prems have "\<forall>z \<in> set xs. f z \<noteq> k" using distinct_key_head[of f x xs k] by simp
    then have "filter (\<lambda>x. f x = k) xs = []" by (simp add: filter_empty_conv)
    with True Cons.prems show ?thesis by simp
  next
    case False
    with Cons show ?thesis by auto
  qed
qed

lemma map_replace_first:
  "f y = k \<Longrightarrow> map f (replace_first (\<lambda>x. f x = k) y xs) = map f xs"
  by (induction xs) auto

lemma filter_other_replace_first:
  "f y = k \<Longrightarrow>
   filter (\<lambda>x. f x \<noteq> k) (replace_first (\<lambda>x. f x = k) y xs) = filter (\<lambda>x. f x \<noteq> k) xs"
  by (induction xs) auto

lemma filter_remove_first:
  "distinct (map f xs) \<Longrightarrow> filter (\<lambda>x. f x = k) (remove_first (\<lambda>x. f x = k) xs) = []"
proof (induction xs)
  case Nil
  then show ?case by simp
next
  case (Cons x xs)
  show ?case
  proof (cases "f x = k")
    case True
    with Cons.prems have "\<forall>z \<in> set xs. f z \<noteq> k" using distinct_key_head[of f x xs k] by simp
    then have "filter (\<lambda>x. f x = k) xs = []" by (simp add: filter_empty_conv)
    with True show ?thesis by simp
  next
    case False
    with Cons show ?thesis by auto
  qed
qed

text \<open>The documents of a collection after an upsert keyed by \<open>sessionId\<close>.\<close>

lemma updateOne_key:
  assumes "distinct (map sessionId (docs c))" and "sessionId y = k"
  shows "filter (\<lambda>d. sessionId d = k) (docs (updateOne (\<lambda>d. sessionId d = k) y c)) = [y]"
proof (cases "\<exists>x \<in> set (docs c). sessionId x = k")
  case True
  with assms show ?thesis by (simp add: updateOne_def filter_replace_first)
next
  case False
  then have "filter (\<lambda>d. sessionId d = k) (docs c) = []" by (simp add: filter_empty_conv)
  with False assms show ?thesis by (simp add: updateOne_def)
qed

lemma updateOne_distinct:
  assumes "distinct (map sessionId (docs c))" and "sessionId y = k"
  shows "distinct (map sessionId (docs (updateOne (\<lambda>d. sessionId d = k) y c)))"
proof (cases "\<exists>x \<in> set (docs c). sessionId x = k")
  case True
  with assms show ?thesis by (simp add: updateOne_def map_replace_first)
next
  case False
  with assms show ?thesis by (auto simp: updateOne_def)
qed

lemma updateOne_others:
  assumes "sessionId y = k"
  shows "filter (\<lambda>d. sessionId d \<noteq> k) (docs (updateOne (\<lambda>d. sessionId d = k) y c))
         = filter (\<lambda>d. sessionId d \<noteq> k) (docs c)"
  using assms by (simp add: updateOne_def filter_other_replace_first)

lemma updateOne_mem:
  assumes "sessionId y = k"
  shows "y \<in> set (docs (updateOne (\<lambda>d. sessionId d = k) y c))"
proof -
  have "\<exists>x \<in> set xs. sessionId x = k \<Longrightarrow> y \<in> set (replace_first (\<lambda>x. sessionId x = k) y xs)" for xs
    by (induction xs) auto
  then show ?thesis by (auto simp: updateOne_def)
qed

section \<open>The operations on an initialized engine\<close>

lemma with_collection_ok:
  "init e w = (Inr u, e1, w1) \<Longrightarrow> this_collection e1 = Some h \<Longrightarrow>
   with_collection e w k = k h e1 w1"
  by (simp add: with_collection_def)

lemma get_ok:
  assumes "init e w = (Inr u, e1, w1)" and "this_collection e1 = Some h"
  shows "get e w now sid =
         (Inr (map_option data
                 (List.find (\<lambda>d. now < expiresMs d \<and> sessionId d = this_prefix e @ sid)
                    (docs (w h)))), e1, w1)"
proof -
  have "docs (w1 h) = docs (w h)" using assms(1) by (rule init_docs)
  then show ?thesis
    using assms
    by (simp add: get_def with_collection_ok [OF assms] getSid_def findOne_def
        split: option.split)
qed

lemma set_op_ok:
  assumes "init e w = (Inr u, e1, w1)" and "this_collection e1 = Some h"
  shows "set_op e w now now2 sid p =
         (Inr (), e1,
          w1(h := updateOne (\<lambda>d. sessionId d = this_prefix e @ sid)
                    \<lparr>sessionId = this_prefix e @ sid, data = p,
                     expiresMs = now + ttlMs (config e), updatedAt = now2\<rparr> (w1 h)))"
  using init_keeps [OF assms(1)]
  by (simp add: set_op_def with_collection_ok [OF assms] getSid_def Let_def)

lemma ready_after:
  assumes "init e w = (Inr u, e1, w1)"
  shows "init e1 w' = (Inr (), e1, w')"
  using assms by (rule init_Inr_again)

lemma destroy_ok:
  assumes "init e w = (Inr u, e1, w1)" and "this_collection e1 = Some h"
  shows "destroy e w sid =
         (Inr (), e1, w1(h := deleteOne (\<lambda>d. sessionId d = this_prefix e @ sid) (w1 h)))"
  using init_keeps [OF assms(1)]
  by (simp add: destroy_def with_collection_ok [OF assms] getSid_def Let_def)

lemma all_op_ok:
  assumes "init e w = (Inr u, e1, w1)" and "this_collection e1 = Some h"
  shows "all_op e w now =
         (Inr (map data (filter (\<lambda>d. now < expiresMs d) (docs (w h)))), e1, w1)"
  using init_docs [OF assms(1), of h]
  by (simp add: all_op_def with_collection_ok [OF assms] find_toArray_def Let_def)

lemma length_op_ok:
  assumes "init e w = (Inr u, e1, w1)" and "this_collection e1 = Some h"
  shows "length_op e w now =
         (Inr (length (filter (\<lambda>d. now < expiresMs d) (docs (w h)))), e1, w1)"
  using init_docs [OF assms(1), of h]
  by (simp add: length_op_def with_collection_ok [OF assms] countDocuments_def)

lemma clear_ok:
  assumes "init e w = (Inr u, e1, w1)" and "this_collection e1 = Some h"
  shows "clear e w = (Inr (), e1, w1(h := deleteMany (\<lambda>d. True) (w1 h)))"
  by (simp add: clear_def with_collection_ok [OF assms])

lemma removeExpiredSessions_ok:
  assumes "init e w = (Inr u, e1, w1)" and "this_collection e1 = Some h"
  shows "removeExpiredSessions e w now =
         (Inr (), e1, w1(h := deleteMany (\<lambda>d. expiresMs d < now) (w1 h)))"
  by (simp add: removeExpiredSessions_def with_collection_ok [OF assms])

lemma length_filter_split:
  "length xs = length (filter P xs) + length (filter (\<lambda>x. \<not> P x) xs)"
  by (induction xs) auto

lemma length_not_expired:
  "length (filter (\<lambda>d. \<not> expiresMs d < now) xs) =
   length (filter (\<lambda>d. now < expiresMs d) xs) + length (filter (\<lambda>d. expiresMs d = now) xs)"
  by (induction xs) auto

lemma filter_live_swept:
  "filter (\<lambda>d. (now::int) < expiresMs d) (filter (\<lambda>d. \<not> expiresMs d < now) xs) =
   filter (\<lambda>d. now < expiresMs d) xs"
  by (induction xs) auto

lemma find_key_single:
  "filter (\<lambda>d. f d = k) xs = [y] \<Longrightarrow> List.find (\<lambda>d. f d = k) xs = Some y"
proof (induction xs)
  case Nil
  then show ?case by simp
next
  case (Cons x xs)
  then show ?case by (cases "f x = k") auto
qed

lemma set_op_effect:
  assumes "init e w = (Inr u, e1, w1)" and "this_collection e1 = Some h"
    and "distinct (map sessionId (docs (w h)))"
  shows "\<exists>w2. set_op e w now now2 sid p = (Inr (), e1, w2)
          \<and> filter (\<lambda>d. sessionId d = this_prefix e @ sid) (docs (w2 h)) =
              [\<lparr>sessionId = this_prefix e @ sid, data = p,
                expiresMs = now + ttlMs (config e), updatedAt = now2\<rparr>]
          \<and> filter (\<lambda>d. sessionId d \<noteq> this_prefix e @ sid) (docs (w2 h)) =
              filter (\<lambda>d. sessionId d \<noteq> this_prefix e @ sid) (docs (w h))
          \<and> distinct (map sessionId (docs (w2 h)))"
proof -
  let ?k = "this_prefix e @ sid"
  let ?y = "\<lparr>sessionId = ?k, data = p, expiresMs = now + ttlMs (config e), updatedAt = now2\<rparr>"
  let ?c2 = "updateOne (\<lambda>d. sessionId d = ?k) ?y (w1 h)"
  let ?w2 = "w1(h := ?c2)"
  have dw1: "docs (w1 h) = docs (w h)" using assms(1) by (rule init_docs)
  have s1: "set_op e w now now2 sid p = (Inr (), e1, ?w2)"
    by (rule set_op_ok [OF assms(1,2)])
  have d1: "distinct (map sessionId (docs (w1 h)))" using assms(3) dw1 by simp
  have k2: "filter (\<lambda>d. sessionId d = ?k) (docs ?c2) = [?y]"
    using d1 by (simp add: updateOne_key)
  have o2: "filter (\<lambda>d. sessionId d \<noteq> ?k) (docs ?c2) = filter (\<lambda>d. sessionId d \<noteq> ?k) (docs (w h))"
    using dw1 by (simp add: updateOne_others)
  have d2: "distinct (map sessionId (docs ?c2))"
    using d1 by (simp add: updateOne_distinct)
  have h2: "?w2 h = ?c2" by simp
  show ?thesis
    apply (rule exI [of _ ?w2])
    apply (intro conjI)
       apply (rule s1)
      apply (simp only: h2 k2)
     apply (simp only: h2 o2)
    apply (simp only: h2 d2)
    done
qed

lemma deleteOne_key:
  assumes "distinct (map sessionId (docs c))"
  shows "List.find (\<lambda>d. sessionId d = k) (docs (deleteOne (\<lambda>d. sessionId d = k) c)) = None"
proof -
  have "filter (\<lambda>d. sessionId d = k) (remove_first (\<lambda>d. sessionId d = k) (docs c)) = []"
    using assms by (rule filter_remove_first)
  then show ?thesis by (simp add: deleteOne_def find_None_iff filter_empty_conv)
qed

lemma with_collection_error:
  "init e w = (Inl err, e', w') \<Longrightarrow> with_collection e w k = (Inl err, e', w')"
  by (simp add: with_collection_def)

lemma createIndex_calls_eq:
  "createIndex h spec w = (r, w') \<Longrightarrow>
   w' = w(h := (w h)\<lparr>createIndex_calls := createIndex_calls (w h) @ [spec]\<rparr>)
   \<and> (r = (if idx_name spec \<in> set (failing (w h)) then Inl (StorageError (idx_name spec))
            else Inr ()))"
  by (auto simp: createIndex_def Let_def split: if_splits)

lemma init_storage_error_cases:
  assumes "this_client e = None" and "init e w = (Inl (StorageError n), e1, w1)"
  defines "h \<equiv> handle_of (config e)"
  shows "client (config e) \<noteq> None \<and> \<not> falsy (dbName (config e))
         \<and> \<not> falsy (collection (config e))
         \<and> e1 = e\<lparr>this_client := client (config e), this_collection := Some h\<rparr>
         \<and> n \<in> set (failing (w h))
         \<and> (\<exists>pre spec post. schema (config e) = pre @ spec # post \<and> idx_name spec = n
               \<and> w1 = w(h := (w h)\<lparr>createIndex_calls := createIndex_calls (w h) @ pre @ [spec]\<rparr>))"
proof -
  let ?cfg = "config e"
  let ?e1 = "e\<lparr>this_client := client ?cfg, this_collection := Some h\<rparr>"
  let ?ttl = "updated_at_ttl_idx (ttlMs ?cfg)"
  let ?F = "\<lambda>s. idx_name s \<in> set (failing (w h))"
  let ?W = "\<lambda>xs. w(h := (w h)\<lparr>createIndex_calls := createIndex_calls (w h) @ xs\<rparr>)"
  have checks: "client ?cfg \<noteq> None" "\<not> falsy (dbName ?cfg)" "\<not> falsy (collection ?cfg)"
    using assms(1,2) by (auto simp: init_def split: if_splits)
  consider (a) "?F session_id_idx"
    | (b) "\<not> ?F session_id_idx" "?F session_id_expires_idx"
    | (c) "\<not> ?F session_id_idx" "\<not> ?F session_id_expires_idx" "uses_native ?cfg" "?F ?ttl"
    | (d) "\<not> ?F session_id_idx" "\<not> ?F session_id_expires_idx" "uses_native ?cfg \<longrightarrow> \<not> ?F ?ttl"
    by blast
  then show ?thesis
  proof cases
    case a
    then have "init e w = (Inl (StorageError (idx_name session_id_idx)), ?e1, ?W [session_id_idx])"
      using assms(1) checks by (simp add: init_def createIndex_def Let_def h_def handle_of_def)
    with assms(2) have eq: "n = idx_name session_id_idx" "e1 = ?e1" "w1 = ?W [session_id_idx]"
      by simp_all
    have "\<exists>pre spec post. schema ?cfg = pre @ spec # post \<and> idx_name spec = n
            \<and> w1 = ?W (pre @ [spec])"
      apply (rule exI [of _ "[]"])
      apply (rule exI [of _ session_id_idx])
      apply (rule exI [of _ "session_id_expires_idx # (if uses_native ?cfg then [?ttl] else [])"])
      apply (simp add: eq schema_def)
      done
    with eq a checks show ?thesis by simp
  next
    case b
    then have "init e w = (Inl (StorageError (idx_name session_id_expires_idx)), ?e1,
                 ?W [session_id_idx, session_id_expires_idx])"
      using assms(1) checks by (simp add: init_def createIndex_def Let_def h_def handle_of_def)
    with assms(2) have eq: "n = idx_name session_id_expires_idx" "e1 = ?e1"
        "w1 = ?W ([session_id_idx] @ [session_id_expires_idx])"
      by simp_all
    have "\<exists>pre spec post. schema ?cfg = pre @ spec # post \<and> idx_name spec = n
            \<and> w1 = ?W (pre @ [spec])"
      apply (rule exI [of _ "[session_id_idx]"])
      apply (rule exI [of _ session_id_expires_idx])
      apply (rule exI [of _ "if uses_native ?cfg then [?ttl] else []"])
      apply (simp add: eq schema_def)
      done
    with eq b checks show ?thesis by simp
  next
    case c
    then have "init e w = (Inl (StorageError (idx_name ?ttl)), ?e1,
                 ?W [session_id_idx, session_id_expires_idx, ?ttl])"
      using assms(1) checks by (simp add: init_def createIndex_def Let_def h_def handle_of_def)
    with assms(2) have eq: "n = idx_name ?ttl" "e1 = ?e1"
        "w1 = ?W ([session_id_idx, session_id_expires_idx] @ [?ttl])"
      by simp_all
    have "\<exists>pre spec post. schema ?cfg = pre @ spec # post \<and> idx_name spec = n
            \<and> w1 = ?W (pre @ [spec])"
      apply (rule exI [of _ "[session_id_idx, session_id_expires_idx]"])
      apply (rule exI [of _ ?ttl])
      apply (rule exI [of _ "[]"])
      using c apply (simp add: eq schema_def)
      done
    with eq c checks show ?thesis by simp
  next
    case d
    then have "\<exists>e' w'. init e w = (Inr (), e', w')"
      using assms(1) checks by (simp add: init_def createIndex_def Let_def h_def handle_of_def)
    with assms(2) show ?thesis by auto
  qed
qed

section \<open>Concurrent initialization keeps a single flight\<close>

lemma requested_0: "requested cfg w0 0 = w0"
  by (simp add: requested_def)

lemma requested_step:
  assumes "k < length (schema cfg)"
  shows "createIndex (handle_of cfg) (schema cfg ! k) (requested cfg w0 k) =
         (if idx_name (schema cfg ! k) \<in> set (failing (w0 (handle_of cfg)))
          then Inl (StorageError (idx_name (schema cfg ! k))) else Inr (),
          requested cfg w0 (Suc k))"
  using assms by (simp add: createIndex_def requested_def Let_def take_Suc_conv_app_nth)

lemma schema_nth:
  "schema cfg ! 0 = session_id_idx"
  "schema cfg ! Suc 0 = session_id_expires_idx"
  "uses_native cfg \<Longrightarrow> schema cfg ! 2 = updated_at_ttl_idx (ttlMs cfg)"
  "length (schema cfg) = (if uses_native cfg then 3 else 2)"
  by (simp_all add: schema_def)

lemma single_flightI:
  assumes "config e = cfg" and "k \<le> length (schema cfg)" and "w = requested cfg w0 k"
    and "\<And>i. stage (ts i) = 0 \<or> stage (ts i) = k"
    and "this_client e = None \<Longrightarrow> k = 0"
    and "\<And>i j. stage (ts i) \<noteq> 0 \<Longrightarrow> stage (ts j) \<noteq> 0 \<Longrightarrow> i = j"
    and "this_client e \<noteq> None \<Longrightarrow> this_collection e = Some (handle_of cfg)"
  shows "single_flight cfg w0 (ts, e, w)"
proof -
  have "k \<le> length (schema cfg) \<and> w = requested cfg w0 k
          \<and> (\<forall>i. stage (ts i) = 0 \<or> stage (ts i) = k)
          \<and> (this_client e = None \<longrightarrow> k = 0)"
    using assms(2-5) by blast
  then have ex: "\<exists>k \<le> length (schema cfg). w = requested cfg w0 k
          \<and> (\<forall>i. stage (ts i) = 0 \<or> stage (ts i) = k)
          \<and> (this_client e = None \<longrightarrow> k = 0)"
    by (rule exI [of _ k])
  have u: "\<forall>i j. stage (ts i) \<noteq> 0 \<and> stage (ts j) \<noteq> 0 \<longrightarrow> i = j"
    using assms(6) by blast
  have c: "this_client e \<noteq> None \<longrightarrow> this_collection e = Some (handle_of cfg)"
    using assms(7) by blast
  show ?thesis
    unfolding single_flight_def prod.case
    by (intro conjI assms(1) ex u c)
qed

lemma single_flightD:
  assumes "single_flight cfg w0 (ts, e, w)"
  shows "config e = cfg"
    and "\<exists>k \<le> length (schema cfg). w = requested cfg w0 k
          \<and> (\<forall>j. stage (ts j) = 0 \<or> stage (ts j) = k)
          \<and> (this_client e = None \<longrightarrow> k = 0)"
    and "\<forall>i j. stage (ts i) \<noteq> 0 \<and> stage (ts j) \<noteq> 0 \<longrightarrow> i = j"
    and "this_client e \<noteq> None \<longrightarrow> this_collection e = Some (handle_of cfg)"
  using assms by (simp_all add: single_flight_def)

text \<open>A caller that leaves the in-flight stages (or never entered them) keeps the invariant.\<close>

lemma single_flight_retire:
  assumes inv: "single_flight cfg w0 (ts, e, w)"
    and "stage pc = 0" and "config e' = config e" and "this_client e' = this_client e"
    and "this_collection e' = this_collection e"
  shows "single_flight cfg w0 (ts(i := pc), e', w)"
proof -
  note d = single_flightD [OF inv]
  from d(2) obtain k where kk: "k \<le> length (schema cfg) \<and> w = requested cfg w0 k
      \<and> (\<forall>j. stage (ts j) = 0 \<or> stage (ts j) = k) \<and> (this_client e = None \<longrightarrow> k = 0)" ..
  then have k: "k \<le> length (schema cfg)" and w: "w = requested cfg w0 k"
    and st': "\<forall>j. stage (ts j) = 0 \<or> stage (ts j) = k"
    and k0': "this_client e = None \<longrightarrow> k = 0"
    by simp_all
  have cfg: "config e = cfg" by (rule d(1))
  have st: "stage (ts j) = 0 \<or> stage (ts j) = k" for j using st' by simp
  have k0: "k = 0" if "this_client e = None" using k0' that by simp
  have uniq: "a = b" if "stage (ts a) \<noteq> 0" "stage (ts b) \<noteq> 0" for a b
    using d(3) that by blast
  have coll: "this_collection e = Some (handle_of cfg)" if "this_client e \<noteq> None"
    using d(4) that by simp
  show ?thesis
  proof (rule single_flightI [where k = k])
    show "config e' = cfg" using cfg assms(3) by simp
    show "k \<le> length (schema cfg)" by (rule k)
    show "w = requested cfg w0 k" by (rule w)
    show "stage ((ts(i := pc)) j) = 0 \<or> stage ((ts(i := pc)) j) = k" for j
      using st [of j] assms(2) by (cases "j = i") simp_all
    show "k = 0" if "this_client e' = None"
    proof -
      from that assms(4) have "this_client e = None" by simp
      then show ?thesis by (rule k0)
    qed
    show "a = b" if "stage ((ts(i := pc)) a) \<noteq> 0" "stage ((ts(i := pc)) b) \<noteq> 0" for a b
    proof -
      have "a \<noteq> i"
      proof
        assume "a = i"
        with that(1) assms(2) show False by simp
      qed
      with that(1) have sa: "stage (ts a) \<noteq> 0" by simp
      have "b \<noteq> i"
      proof
        assume "b = i"
        with that(2) assms(2) show False by simp
      qed
      with that(2) have sb: "stage (ts b) \<noteq> 0" by simp
      from sa sb show ?thesis by (rule uniq)
    qed
    show "this_collection e' = Some (handle_of cfg)" if "this_client e' \<noteq> None"
    proof -
      from that assms(4) have "this_client e \<noteq> None" by simp
      then have "this_collection e = Some (handle_of cfg)" by (rule coll)
      with assms(5) show ?thesis by simp
    qed
  qed
qed

text \<open>The caller in flight (or, with nothing requested yet, any caller) requests the next index.\<close>

lemma single_flight_advance:
  assumes inv: "single_flight cfg w0 (ts, e, w)"
    and others: "\<And>j. j \<noteq> i \<Longrightarrow> stage (ts j) = 0"
    and "stage pc = Suc k" and "Suc k \<le> length (schema cfg)"
    and "w' = requested cfg w0 (Suc k)"
    and "config e' = cfg" and "this_client e' \<noteq> None"
    and "this_collection e' = Some (handle_of cfg)"
  shows "single_flight cfg w0 (ts(i := pc), e', w')"
proof (rule single_flightI [where k = "Suc k"])
  show "config e' = cfg" by (rule assms(6))
  show "Suc k \<le> length (schema cfg)" by (rule assms(4))
  show "w' = requested cfg w0 (Suc k)" by (rule assms(5))
  show "stage ((ts(i := pc)) j) = 0 \<or> stage ((ts(i := pc)) j) = Suc k" for j
    using others [of j] assms(3) by simp
  show "Suc k = 0" if "this_client e' = None" using that assms(7) by simp
  show "a = b" if "stage ((ts(i := pc)) a) \<noteq> 0" "stage ((ts(i := pc)) b) \<noteq> 0" for a b
  proof -
    from that(1) others [of a] have "a = i" by (auto split: if_splits)
    moreover from that(2) others [of b] have "b = i" by (auto split: if_splits)
    ultimately show ?thesis by simp
  qed
  show "this_collection e' = Some (handle_of cfg)" by (rule assms(8))
qed

lemma single_flight_step:
  assumes inv: "single_flight cfg w0 (ts, e, w)"
    and step: "init_step (ts i) e w = (pc, e', w')"
  shows "single_flight cfg w0 (ts(i := pc), e', w')"
proof -
  note d = single_flightD [OF inv]
  from d(2) obtain k where kk: "k \<le> length (schema cfg) \<and> w = requested cfg w0 k
      \<and> (\<forall>j. stage (ts j) = 0 \<or> stage (ts j) = k) \<and> (this_client e = None \<longrightarrow> k = 0)" ..
  then have k: "k \<le> length (schema cfg)" and w: "w = requested cfg w0 k"
    and st': "\<forall>j. stage (ts j) = 0 \<or> stage (ts j) = k"
    and k0': "this_client e = None \<longrightarrow> k = 0"
    by simp_all
  have cfg: "config e = cfg" by (rule d(1))
  have st: "stage (ts j) = 0 \<or> stage (ts j) = k" for j using st' by simp
  have k0: "k = 0" if "this_client e = None" using k0' that by simp
  have uniq: "a = b" if "stage (ts a) \<noteq> 0" "stage (ts b) \<noteq> 0" for a b
    using d(3) that by blast
  have coll: "this_collection e = Some (handle_of cfg)" if "this_client e \<noteq> None"
    using d(4) that by simp
  have others: "stage (ts j) = 0" if "stage (ts i) \<noteq> 0" "j \<noteq> i" for j
    using uniq [of i j] that by auto
  have len: "2 \<le> length (schema cfg)" by (simp add: schema_nth)
  show ?thesis
  proof (cases "ts i")
    case Init_start
    show ?thesis
    proof (cases "this_client e")
      case (Some c)
      with Init_start step have "stage pc = 0" "e' = e" "w' = w"
        by (auto simp: init_step_def)
      with inv show ?thesis by (simp add: single_flight_retire)
    next
      case None
      then have k_0: "k = 0" by (rule k0)
      have all0: "stage (ts j) = 0" for j using st [of j] k_0 by simp
      show ?thesis
      proof (cases "client cfg = None \<or> falsy (dbName cfg) \<or> falsy (collection cfg)")
        case True
        with Init_start None step cfg have "stage pc = 0" "e' = e" "w' = w"
          by (auto simp: init_step_def split: if_splits)
        with inv show ?thesis by (simp add: single_flight_retire)
      next
        case False
        have c1: "createIndex (handle_of cfg) session_id_idx w =
                  (if idx_name session_id_idx \<in> set (failing (w0 (handle_of cfg)))
                   then Inl (StorageError (idx_name session_id_idx)) else Inr (),
                   requested cfg w0 (Suc 0))"
          using requested_step [of 0 cfg w0] len by (simp add: schema_nth w k_0)
        from Init_start None step cfg False c1
        have r: "stage pc = Suc 0" "w' = requested cfg w0 (Suc 0)"
          "e' = e\<lparr>this_client := client cfg, this_collection := Some (handle_of cfg)\<rparr>"
          by (auto simp: init_step_def Let_def handle_of_def split: if_splits)
        have e': "config e' = cfg" "this_client e' \<noteq> None"
          "this_collection e' = Some (handle_of cfg)"
          using r(3) cfg False by auto
        show ?thesis
          using inv all0 r(1) _ r(2) e'
          by (rule single_flight_advance) (use len in simp)
      qed
    qed
  next
    case (Await_session_id_idx r)
    then have si: "stage (ts i) = 1" by simp
    then have k1: "k = 1" using st [of i] by simp
    have cl: "this_client e \<noteq> None" using k0 k1 by auto
    show ?thesis
    proof (cases r)
      case (Inl err)
      with Await_session_id_idx step have "stage pc = 0" "e' = e" "w' = w"
        by (auto simp: init_step_def)
      with inv show ?thesis by (simp add: single_flight_retire)
    next
      case (Inr u)
      have c2: "createIndex (handle_of cfg) session_id_expires_idx w =
                  (if idx_name session_id_expires_idx \<in> set (failing (w0 (handle_of cfg)))
                   then Inl (StorageError (idx_name session_id_expires_idx)) else Inr (),
                   requested cfg w0 (Suc (Suc 0)))"
        using requested_step [of 1 cfg w0] len by (simp add: schema_nth w k1)
      from Await_session_id_idx Inr step coll [OF cl] c2
      have r: "stage pc = Suc (Suc 0)" "w' = requested cfg w0 (Suc (Suc 0))" "e' = e"
        by (auto simp: init_step_def split: if_splits)
      have o: "stage (ts j) = 0" if "j \<noteq> i" for j using others [of j] si that by simp
      show ?thesis
        using inv o r(1) _ r(2)
        by (rule single_flight_advance) (use len cfg cl coll r(3) in simp_all)
    qed
  next
    case (Await_session_id_expires_idx r)
    then have si: "stage (ts i) = 2" by simp
    then have k2: "k = 2" using st [of i] by simp
    have cl: "this_client e \<noteq> None" using k0 k2 by auto
    show ?thesis
    proof (cases "\<exists>u. r = Inr u \<and> uses_native cfg")
      case False
      with Await_session_id_expires_idx step cfg
      have "stage pc = 0" "config e' = config e" "this_client e' = this_client e"
        "this_collection e' = this_collection e" "w' = w"
        by (auto simp: init_step_def split: sum.splits if_splits)
      with inv show ?thesis by (simp add: single_flight_retire)
    next
      case True
      then obtain u where u: "r = Inr u" and nat: "uses_native cfg" by blast
      have c3: "createIndex (handle_of cfg) (updated_at_ttl_idx (ttlMs cfg)) w =
                  (if idx_name (updated_at_ttl_idx (ttlMs cfg)) \<in> set (failing (w0 (handle_of cfg)))
                   then Inl (StorageError (idx_name (updated_at_ttl_idx (ttlMs cfg)))) else Inr (),
                   requested cfg w0 (Suc 2))"
        using requested_step [of 2 cfg w0] nat
        by (simp add: schema_nth w k2)
      from Await_session_id_expires_idx u nat step coll [OF cl] c3 cfg
      have r: "stage pc = Suc 2" "w' = requested cfg w0 (Suc 2)" "e' = e"
        by (auto simp: init_step_def split: if_splits)
      have o: "stage (ts j) = 0" if "j \<noteq> i" for j using others [of j] si that by simp
      show ?thesis
        using inv o r(1) _ r(2)
        by (rule single_flight_advance) (use nat cfg cl coll r(3) in \<open>simp_all add: schema_nth\<close>)
    qed
  next
    case (Await_updated_at_ttl_idx r)
    with step
    have "stage pc = 0" "config e' = config e" "this_client e' = this_client e"
      "this_collection e' = this_collection e" "w' = w"
      by (auto simp: init_step_def split: sum.splits)
    with inv show ?thesis by (simp add: single_flight_retire)
  next
    case Init_returned
    with step have "pc = Init_returned" "e' = e" "w' = w" by (auto simp: init_step_def)
    then have "stage pc = 0" "e' = e" "w' = w" by simp_all
    with inv show ?thesis by (simp add: single_flight_retire)
  next
    case (Init_threw err)
    with step have "pc = Init_threw err" "e' = e" "w' = w" by (auto simp: init_step_def)
    then have "stage pc = 0" "e' = e" "w' = w" by simp_all
    with inv show ?thesis by (simp add: single_flight_retire)
  qed
qed

lemma single_flight_run:
  "single_flight cfg w0 s \<Longrightarrow> single_flight cfg w0 (run sched s)"
proof (induction sched arbitrary: s)
  case Nil
  then show ?case by simp
next
  case (Cons i sched)
  obtain ts e w where s: "s = (ts, e, w)" by (cases s)
  obtain pc e' w' where st: "init_step (ts i) e w = (pc, e', w')" by (cases "init_step (ts i) e w")
  have "single_flight cfg w0 (ts(i := pc), e', w')"
    using Cons.prems st unfolding s by (rule single_flight_step)
  then have "single_flight cfg w0 (run sched (ts(i := pc), e', w'))" by (rule Cons.IH)
  then show ?case by (simp add: s st)
qed

lemma single_flight_initial: "single_flight cfg w0 (idle, constructor cfg, w0)"
  by (intro single_flightI [where k = 0]) (simp_all add: requested_0 idle_def constructor_def)

lemma count_key_le_1:
  "distinct (map f xs) \<Longrightarrow> length (filter (\<lambda>x. f x = n) xs) \<le> 1"
proof (induction xs)
  case Nil
  then show ?case by simp
next
  case (Cons x xs)
  show ?case
  proof (cases "f x = n")
    case True
    with Cons.prems have "\<forall>z \<in> set xs. f z \<noteq> n" using distinct_key_head [of f x xs n] by simp
    then have "filter (\<lambda>x. f x = n) xs = []" by (simp add: filter_empty_conv)
    with True show ?thesis by simp
  next
    case False
    with Cons show ?thesis by simp
  qed
qed

lemma schema_names_distinct: "distinct (map idx_name (schema cfg))"
  by (simp add: schema_def session_id_idx_def session_id_expires_idx_def updated_at_ttl_idx_def)

lemma calls_named_requested:
  "calls_named n (requested cfg w0 k h) \<le> calls_named n (w0 h) + 1"
proof -
  have "distinct (map idx_name (take k (schema cfg)))"
    using schema_names_distinct [of cfg] by (simp add: take_map [symmetric] distinct_take)
  then have "length (filter (\<lambda>s. idx_name s = n) (take k (schema cfg))) \<le> 1"
    by (rule count_key_le_1)
  then show ?thesis by (simp add: calls_named_def requested_def)
qed

lemma docs_requested: "docs (requested cfg w0 k h) = docs (w0 h)"
  by (simp add: requested_def)

lemma calls_requested:
  "createIndex_calls (requested cfg w0 k (handle_of cfg)) =
   createIndex_calls (w0 (handle_of cfg)) @ take k (schema cfg)"
  by (simp add: requested_def)

lemma completed_step:
  assumes inv: "single_flight cfg w0 (ts, e, w)" and c: "completed (ts, e, w)"
    and step: "init_step (ts i) e w = (pc, e', w')"
  shows "completed (ts(i := pc), e', w')"
proof -
  note d = single_flightD [OF inv]
  from d(2) obtain k where kk: "k \<le> length (schema cfg) \<and> w = requested cfg w0 k
      \<and> (\<forall>j. stage (ts j) = 0 \<or> stage (ts j) = k) \<and> (this_client e = None \<longrightarrow> k = 0)" ..
  then have st: "stage (ts i) = 0 \<or> stage (ts i) = k" and k0: "this_client e = None \<longrightarrow> k = 0"
    by simp_all
  have cl: "this_client e \<noteq> None" if "stage (ts i) \<noteq> 0"
    using st k0 that by auto
  have old: "hasInit e \<longrightarrow> this_client e \<noteq> None" using c by (simp add: completed_def)
  have "hasInit e' \<longrightarrow> this_client e' \<noteq> None"
  proof (cases "ts i")
    case Init_start
    with step old show ?thesis
      by (auto simp: init_step_def Let_def split: if_splits prod.splits)
  next
    case (Await_session_id_idx r)
    with step old show ?thesis
      by (auto simp: init_step_def split: sum.splits option.splits prod.splits)
  next
    case (Await_session_id_expires_idx r)
    then have "this_client e \<noteq> None" using cl by simp
    with Await_session_id_expires_idx step show ?thesis
      by (auto simp: init_step_def split: sum.splits option.splits prod.splits if_splits)
  next
    case (Await_updated_at_ttl_idx r)
    then have "this_client e \<noteq> None" using cl by simp
    with Await_updated_at_ttl_idx step show ?thesis
      by (auto simp: init_step_def split: sum.splits)
  next
    case Init_returned
    with step old show ?thesis by (auto simp: init_step_def)
  next
    case (Init_threw err)
    with step old show ?thesis by (auto simp: init_step_def)
  qed
  then show ?thesis by (simp add: completed_def)
qed

lemma completed_run:
  "single_flight cfg w0 s \<Longrightarrow> completed s \<Longrightarrow> completed (run sched s)"
proof (induction sched arbitrary: s)
  case Nil
  then show ?case by simp
next
  case (Cons i sched)
  obtain ts e w where s: "s = (ts, e, w)" by (cases s)
  obtain pc e' w' where st: "init_step (ts i) e w = (pc, e', w')" by (cases "init_step (ts i) e w")
  have 1: "single_flight cfg w0 (ts(i := pc), e', w')"
    using Cons.prems(1) st unfolding s by (rule single_flight_step)
  have 2: "completed (ts(i := pc), e', w')"
    using Cons.prems st unfolding s by (rule completed_step)
  from 1 2 have "completed (run sched (ts(i := pc), e', w'))" by (rule Cons.IH)
  then show ?case by (simp add: s st)
qed

text \<open>One caller that is never interleaved with another is the sequential \<open>init\<close>.\<close>

lemma init_is_uninterrupted_run:
  "snd (run [0, 0, 0, 0] (idle, e, w)) = snd (init e w)
   \<and> fst (run [0, 0, 0, 0] (idle, e, w)) 0 =
       (case fst (init e w) of Inr u \<Rightarrow> Init_returned | Inl err \<Rightarrow> Init_threw err)"
  by (simp add: init_def init_step_def idle_def createIndex_def Let_def
      split: sum.splits option.splits)

section \<open>Evaluating the concrete engines and storages\<close>

lemmas fixture_defs =
  fresh_engine_def sample_storage_def
  constructor_def test_config_def test_handle_def
  empty_storage_def empty_collection_def or_empty_def falsy_def uses_native_def
  session_id_idx_def session_id_expires_idx_def updated_at_ttl_idx_def

lemma init_fresh_engine:
  assumes "failing (w test_handle) = []"
  shows "init fresh_engine w =
           (Inr (), fst (snd (init fresh_engine w)), snd (snd (init fresh_engine w)))"
    and "this_collection (fst (snd (init fresh_engine w))) = Some test_handle"
  using assms by (simp_all add: init_def createIndex_def Let_def fixture_defs prod_eq_iff)

lemma sample_storage_docs:
  "docs (sample_storage test_handle) =
     [\<lparr>sessionId = ''p:abc'', data = 7, expiresMs = 10000, updatedAt = 0\<rparr>,
      \<lparr>sessionId = ''p:old'', data = 3, expiresMs = 500, updatedAt = 0\<rparr>]"
  "failing (sample_storage test_handle) = []"
  "failing ((empty_storage :: nat Storage) test_handle) = []"
  "docs ((empty_storage :: nat Storage) test_handle) = []"
  "this_prefix fresh_engine = ''p:''"
  "config fresh_engine = test_config 10000 (Some ''p:'')"
  by (simp_all add: fixture_defs)

lemma init_faulty:
  "init fresh_engine faulty_storage =
     (Inl (StorageError ''session_id_expires_idx''),
      fst (snd (init fresh_engine faulty_storage)), snd (snd (init fresh_engine faulty_storage)))"
  by (simp add: init_def createIndex_def Let_def faulty_storage_def fixture_defs prod_eq_iff)

lemmas run_defs = init_step_def idle_def createIndex_def Let_def fixture_defs

section \<open>Verified properties\<close>

text \<open>
  C1 (as the code has it). Any number of callers may start \<open>init\<close> on a fresh engine and
  be interleaved at the awaits in any order. Whatever the schedule, the storage receives
  at most one \<open>createIndex\<close> call per index name: the calls it has received are a prefix
  of the setup sequence, once, and no document is touched. Once the client field is
  assigned (in particular once \<open>hasInit\<close> is set), a call of \<open>init\<close> returns at once,
  without error, changing neither the engine nor the storage. The source keeps no shared
  promise: such a call returns without waiting for the attempt in flight.
\<close>

theorem init_single_flight:
  assumes "run sched (idle, constructor cfg, w) = (ts, e', w')"
  shows "calls_named n (w' h) \<le> calls_named n (w h) + 1
       \<and> (\<exists>k \<le> length (schema cfg).
             createIndex_calls (w' (handle_of cfg)) =
               createIndex_calls (w (handle_of cfg)) @ take k (schema cfg))
       \<and> docs (w' h) = docs (w h)
       \<and> (hasInit e' \<longrightarrow> this_client e' \<noteq> None)
       \<and> (this_client e' \<noteq> None \<longrightarrow>
             init_step Init_start e' w'' = (Init_returned, e', w'')
             \<and> init e' w'' = (Inr (), e', w''))"
proof -
  have inv: "single_flight cfg w (ts, e', w')"
    using single_flight_run [OF single_flight_initial, of cfg w sched] assms by simp
  have "completed (idle, constructor cfg, w)" by (simp add: completed_def constructor_def)
  then have "completed (run sched (idle, constructor cfg, w))"
    using single_flight_initial by (rule completed_run [rotated])
  then have comp: "hasInit e' \<longrightarrow> this_client e' \<noteq> None"
    using assms by (simp add: completed_def)
  from single_flightD(2) [OF inv] obtain k where
    kk: "k \<le> length (schema cfg) \<and> w' = requested cfg w k
      \<and> (\<forall>j. stage (ts j) = 0 \<or> stage (ts j) = k) \<and> (this_client e' = None \<longrightarrow> k = 0)" ..
  then have k: "k \<le> length (schema cfg)" and w': "w' = requested cfg w k" by simp_all
  have a: "calls_named n (w' h) \<le> calls_named n (w h) + 1"
    unfolding w' by (rule calls_named_requested)
  have b: "\<exists>k \<le> length (schema cfg).
             createIndex_calls (w' (handle_of cfg)) =
               createIndex_calls (w (handle_of cfg)) @ take k (schema cfg)"
    using k unfolding w' by (intro exI [of _ k] conjI calls_requested)
  have c: "docs (w' h) = docs (w h)" unfolding w' by (rule docs_requested)
  have d: "this_client e' \<noteq> None \<longrightarrow>
             init_step Init_start e' w'' = (Init_returned, e', w'')
             \<and> init e' w'' = (Inr (), e', w'')"
    by (auto simp: init_step_def init_def)
  show ?thesis by (intro conjI a b c comp d)
qed

text \<open>
  Three callers on the fresh test engine, interleaved: the setup sequence runs once, all
  three calls return, and the index names requested are the three of the sequence.
\<close>

theorem init_single_flight_witness:
  "fst six_steps 0 = Init_returned \<and> fst six_steps 1 = Init_returned
   \<and> fst six_steps 2 = Init_returned
   \<and> hasInit (fst (snd six_steps))
   \<and> map idx_name (createIndex_calls (snd (snd six_steps) test_handle)) =
       [''session_id_idx'', ''session_id_expires_idx'', ''updated_at_ttl_idx'']
   \<and> calls_named ''session_id_idx'' (snd (snd six_steps) test_handle) \<le> 1
   \<and> this_client (fst (snd six_steps)) \<noteq> None
   \<and> init (fst (snd six_steps)) sample_storage = (Inr (), fst (snd six_steps), sample_storage)"
proof -
  have r: "run [0, 1, 0, 2, 0, 0] (idle, constructor (test_config 10000 (Some ''p:'')),
             empty_storage :: nat Storage) =
           (fst six_steps, fst (snd six_steps), snd (snd six_steps))"
    by (simp add: six_steps_def fresh_engine_def)
  note t = init_single_flight [OF r, of "''session_id_idx''" test_handle sample_storage]
  have e: "fst six_steps 0 = Init_returned" "fst six_steps 1 = Init_returned"
    "fst six_steps 2 = Init_returned" "hasInit (fst (snd six_steps))"
    "map idx_name (createIndex_calls (snd (snd six_steps) test_handle)) =
       [''session_id_idx'', ''session_id_expires_idx'', ''updated_at_ttl_idx'']"
    by (simp_all add: six_steps_def run_defs)
  from t e(4) have c: "this_client (fst (snd six_steps)) \<noteq> None" by blast
  with t have i: "init (fst (snd six_steps)) sample_storage =
      (Inr (), fst (snd six_steps), sample_storage)" by blast
  from t have n: "calls_named ''session_id_idx'' (snd (snd six_steps) test_handle) \<le> 1"
    by (simp add: calls_named_def fixture_defs)
  from e c i n show ?thesis by simp
qed

text \<open>
  C1 as stated requires every caller that arrives before initialization completes to wait
  for the attempt in flight. With two callers this fails: after caller 0 has run to its
  first await and caller 1 has then called \<open>init\<close>, caller 1's call has returned while
  caller 0 is still suspended on the first \<open>createIndex\<close>, \<open>hasInit\<close> is false and only
  \<open>session_id_idx\<close> has been requested.
\<close>

theorem two_callers_second_returns_early:
  "fst two_callers 0 = Await_session_id_idx (Inr ())
   \<and> fst two_callers 1 = Init_returned
   \<and> \<not> hasInit (fst (snd two_callers))
   \<and> map idx_name (createIndex_calls (snd (snd two_callers) test_handle)) = [''session_id_idx'']"
  by (simp add: two_callers_def run_defs)

text \<open>
  C2. On an engine whose initialization succeeds, over a collection with unique session
  ids: \<open>get(id)\<close> returns payload \<open>p\<close> exactly when a record with
  \<open>sessionId = prefix + id\<close>, expiry strictly greater than now and data \<open>p\<close> exists; it
  returns null (a result, not a failure) exactly when no record with that key has an
  expiry strictly greater than now. After \<open>set\<close> at \<open>writeTime\<close>, \<open>get\<close> at \<open>now\<close> returns
  the payload if \<open>now < writeTime + ttlMs\<close> and null otherwise; with \<open>ttlMs = 0\<close> that is
  null at every \<open>now \<ge> writeTime\<close>.
\<close>

theorem get_live_payload:
  assumes "init e w = (Inr u, e1, w1)" and "this_collection e1 = Some h"
    and "distinct (map sessionId (docs (w h)))"
  shows "(get e w now sid = (Inr (Some p), e1, w1) \<longleftrightarrow>
            (\<exists>d \<in> set (docs (w h)).
               sessionId d = this_prefix e @ sid \<and> now < expiresMs d \<and> data d = p))
       \<and> (get e w now sid = (Inr None, e1, w1) \<longleftrightarrow>
            \<not> (\<exists>d \<in> set (docs (w h)).
                 sessionId d = this_prefix e @ sid \<and> now < expiresMs d))
       \<and> (\<exists>w2. set_op e w writeTime now2 sid q = (Inr (), e1, w2)
             \<and> get e1 w2 now sid =
                 (Inr (if now < writeTime + ttlMs (config e) then Some q else None), e1, w2))"
proof -
  let ?k = "this_prefix e @ sid"
  let ?P = "\<lambda>d. now < expiresMs d \<and> sessionId d = ?k"
  note g = get_ok [OF assms(1,2), of now sid]
  have A: "get e w now sid = (Inr (Some p), e1, w1) \<longleftrightarrow>
            (\<exists>d \<in> set (docs (w h)). sessionId d = ?k \<and> now < expiresMs d \<and> data d = p)"
  proof (cases "\<exists>d \<in> set (docs (w h)). sessionId d = ?k")
    case True
    then obtain d where d: "d \<in> set (docs (w h))" "sessionId d = ?k" by blast
    have f: "List.find ?P (docs (w h)) = (if now < expiresMs d then Some d else None)"
      using find_unique_key [OF assms(3) d, of "\<lambda>d. now < expiresMs d"] by simp
    have u: "d' = d" if "d' \<in> set (docs (w h))" "sessionId d' = ?k" for d'
      using that d assms(3) by (auto simp: distinct_map inj_on_def)
    have "get e w now sid = (Inr (Some p), e1, w1) \<longleftrightarrow> now < expiresMs d \<and> data d = p"
      by (simp add: g f)
    also have "\<dots> \<longleftrightarrow>
        (\<exists>d \<in> set (docs (w h)). sessionId d = ?k \<and> now < expiresMs d \<and> data d = p)"
      using d u by blast
    finally show ?thesis .
  next
    case False
    then have "List.find ?P (docs (w h)) = None" by (auto simp: find_None_iff)
    then have "get e w now sid = (Inr None, e1, w1)" by (simp add: g)
    with False show ?thesis by auto
  qed
  have B: "get e w now sid = (Inr None, e1, w1) \<longleftrightarrow>
            \<not> (\<exists>d \<in> set (docs (w h)). sessionId d = ?k \<and> now < expiresMs d)"
    by (auto simp: g find_None_iff)
  let ?y = "\<lparr>sessionId = ?k, data = q, expiresMs = writeTime + ttlMs (config e),
             updatedAt = now2\<rparr>"
  let ?c = "updateOne (\<lambda>d. sessionId d = ?k) ?y (w1 h)"
  let ?w2 = "w1(h := ?c)"
  have s: "set_op e w writeTime now2 sid q = (Inr (), e1, ?w2)"
    by (rule set_op_ok [OF assms(1,2)])
  have dw1: "docs (w1 h) = docs (w h)" using assms(1) by (rule init_docs)
  have i2: "init e1 ?w2 = (Inr (), e1, ?w2)" using assms(1) by (rule ready_after)
  have pe: "this_prefix e1 = this_prefix e" "config e1 = config e"
    using init_keeps [OF assms(1)] by simp_all
  have dist: "distinct (map sessionId (docs ?c))"
    using assms(3) dw1 by (simp add: updateOne_distinct)
  have mem: "?y \<in> set (docs ?c)" by (simp add: updateOne_mem)
  have f2: "List.find ?P (docs ?c) = (if now < expiresMs ?y then Some ?y else None)"
    using find_unique_key [OF dist mem, of ?k "\<lambda>d. now < expiresMs d"] by simp
  have C: "get e1 ?w2 now sid =
            (Inr (if now < writeTime + ttlMs (config e) then Some q else None), e1, ?w2)"
    using get_ok [OF i2 assms(2), of now sid] f2 pe by simp
  from A B s C show ?thesis by blast
qed

text \<open>
  The sample collection: the record expiring at 10000 is returned at 9999 and dead at
  10000; an absent id gives null.
\<close>

theorem get_live_payload_witness:
  "distinct (map sessionId (docs (sample_storage test_handle)))
   \<and> fst (get fresh_engine sample_storage 9999 ''abc'') = Inr (Some 7)
   \<and> fst (get fresh_engine sample_storage 10000 ''abc'') = Inr None
   \<and> fst (get fresh_engine sample_storage 0 ''xyz'') = Inr None"
proof -
  note i = init_fresh_engine [of sample_storage, OF sample_storage_docs(2)]
  have d: "distinct (map sessionId (docs (sample_storage test_handle)))"
    by (simp add: sample_storage_docs)
  note t = get_live_payload [OF i d]
  have "fst (get fresh_engine sample_storage 9999 ''abc'') = Inr (Some 7)"
    using t [of 9999 "''abc''" 7] by (simp add: sample_storage_docs)
  moreover have "fst (get fresh_engine sample_storage 10000 ''abc'') = Inr None"
    using t [of 10000 "''abc''"] by (simp add: sample_storage_docs)
  moreover have "fst (get fresh_engine sample_storage 0 ''xyz'') = Inr None"
    using t [of 0 "''xyz''"] by (simp add: sample_storage_docs)
  ultimately show ?thesis using d by simp
qed

text \<open>
  C3. \<open>removeExpiredSessions\<close> leaves exactly the records whose expiry is not strictly
  less than now. A record whose expiry equals now survives the sweep, although \<open>get\<close>
  returns null for it at that instant, before and after the sweep; after the sweep
  \<open>length\<close> counts only the records with expiry greater than now, so the collection holds
  that many records plus those expiring exactly now.
\<close>

theorem sweep_strict_boundary:
  assumes "init e w = (Inr u, e1, w1)" and "this_collection e1 = Some h"
    and "distinct (map sessionId (docs (w h)))"
  shows "\<exists>w2. removeExpiredSessions e w now = (Inr (), e1, w2)
          \<and> docs (w2 h) = filter (\<lambda>d. \<not> expiresMs d < now) (docs (w h))
          \<and> (\<forall>d \<in> set (docs (w h)).
                expiresMs d = now \<and> sessionId d = this_prefix e @ sid \<longrightarrow>
                  d \<in> set (docs (w2 h))
                  \<and> get e w now sid = (Inr None, e1, w1)
                  \<and> get e1 w2 now sid = (Inr None, e1, w2))
          \<and> length_op e1 w2 now =
              (Inr (length (filter (\<lambda>d. now < expiresMs d) (docs (w h)))), e1, w2)
          \<and> length (docs (w2 h)) =
              length (filter (\<lambda>d. now < expiresMs d) (docs (w h)))
              + length (filter (\<lambda>d. expiresMs d = now) (docs (w h)))"
proof -
  let ?k = "this_prefix e @ sid"
  let ?w2 = "w1(h := deleteMany (\<lambda>d. expiresMs d < now) (w1 h))"
  have dw1: "docs (w1 h) = docs (w h)" using assms(1) by (rule init_docs)
  have r: "removeExpiredSessions e w now = (Inr (), e1, ?w2)"
    by (rule removeExpiredSessions_ok [OF assms(1,2)])
  have d2: "docs (?w2 h) = filter (\<lambda>d. \<not> expiresMs d < now) (docs (w h))"
    by (simp add: deleteMany_def dw1)
  have i2: "init e1 ?w2 = (Inr (), e1, ?w2)" using assms(1) by (rule init_Inr_again)
  have pe: "this_prefix e1 = this_prefix e" using init_keeps [OF assms(1)] by simp
  have dist2: "distinct (map sessionId (docs (?w2 h)))"
    unfolding d2 using assms(3) by (rule distinct_map_filter)
  have b: "d \<in> set (docs (?w2 h)) \<and> get e w now sid = (Inr None, e1, w1)
           \<and> get e1 ?w2 now sid = (Inr None, e1, ?w2)"
    if d: "d \<in> set (docs (w h))" "expiresMs d = now" "sessionId d = ?k" for d
  proof -
    have m: "d \<in> set (docs (?w2 h))" unfolding d2 using d by simp
    have "List.find (\<lambda>x. now < expiresMs x \<and> sessionId x = ?k) (docs (w h)) = None"
      using find_unique_key [OF assms(3) d(1) d(3), of "\<lambda>x. now < expiresMs x"] d(2) by simp
    then have g1: "get e w now sid = (Inr None, e1, w1)"
      using get_ok [OF assms(1,2), of now sid] by simp
    have "List.find (\<lambda>x. now < expiresMs x \<and> sessionId x = ?k) (docs (?w2 h)) = None"
      using find_unique_key [OF dist2 m d(3), of "\<lambda>x. now < expiresMs x"] d(2) by simp
    then have g2: "get e1 ?w2 now sid = (Inr None, e1, ?w2)"
      using get_ok [OF i2 assms(2), of now sid] pe by simp
    from m g1 g2 show ?thesis by simp
  qed
  have l: "length_op e1 ?w2 now =
            (Inr (length (filter (\<lambda>d. now < expiresMs d) (docs (w h)))), e1, ?w2)"
    using length_op_ok [OF i2 assms(2), of now] by (simp only: d2 filter_live_swept)
  have n: "length (docs (?w2 h)) =
            length (filter (\<lambda>d. now < expiresMs d) (docs (w h)))
            + length (filter (\<lambda>d. expiresMs d = now) (docs (w h)))"
    by (simp only: d2 length_not_expired)
  from r d2 b l n show ?thesis by blast
qed

text \<open>
  Sweeping the sample collection at 10000 removes the record that expired at 500 and keeps
  the one expiring at 10000, which \<open>get\<close> reports dead.
\<close>

theorem sweep_strict_boundary_witness:
  "distinct (map sessionId (docs (sample_storage test_handle)))
   \<and> docs (snd (snd (removeExpiredSessions fresh_engine sample_storage 10000)) test_handle) =
       [\<lparr>sessionId = ''p:abc'', data = 7, expiresMs = 10000, updatedAt = 0\<rparr>]
   \<and> fst (get fresh_engine sample_storage 10000 ''abc'') = Inr None"
proof -
  note i = init_fresh_engine [of sample_storage, OF sample_storage_docs(2)]
  have d: "distinct (map sessionId (docs (sample_storage test_handle)))"
    by (simp add: sample_storage_docs)
  from sweep_strict_boundary [OF i d, of 10000 "''abc''"]
  obtain w2 where
    r: "removeExpiredSessions fresh_engine sample_storage 10000 =
          (Inr (), fst (snd (init fresh_engine sample_storage)), w2)"
    and k: "docs (w2 test_handle) =
          filter (\<lambda>d. \<not> expiresMs d < 10000) (docs (sample_storage test_handle))"
    and b: "\<forall>d \<in> set (docs (sample_storage test_handle)).
          expiresMs d = 10000 \<and> sessionId d = this_prefix fresh_engine @ ''abc'' \<longrightarrow>
            d \<in> set (docs (w2 test_handle))
            \<and> get fresh_engine sample_storage 10000 ''abc'' =
                (Inr None, fst (snd (init fresh_engine sample_storage)),
                 snd (snd (init fresh_engine sample_storage)))
            \<and> get (fst (snd (init fresh_engine sample_storage))) w2 10000 ''abc'' =
                (Inr None, fst (snd (init fresh_engine sample_storage)), w2)"
    by blast
  have "docs (snd (snd (removeExpiredSessions fresh_engine sample_storage 10000)) test_handle) =
       [\<lparr>sessionId = ''p:abc'', data = 7, expiresMs = 10000, updatedAt = 0\<rparr>]"
    by (simp add: r k sample_storage_docs)
  moreover have "fst (get fresh_engine sample_storage 10000 ''abc'') = Inr None"
    using b by (simp add: sample_storage_docs)
  ultimately show ?thesis using d by simp
qed

text \<open>
  C4. On an engine whose initialization succeeds, over a collection with unique session
  ids, \<open>set(id, payload)\<close> succeeds and leaves exactly one record with
  \<open>sessionId = prefix + id\<close>; it holds the payload, expiry \<open>now + ttlMs\<close> and the
  \<open>updatedAt\<close> read from the clock (the source reads the clock a second time for it;
  \<open>now2 = now\<close> when both reads fall in the same millisecond). The other records are
  unchanged and ids stay unique. A second \<open>set\<close> for the same id again leaves exactly
  one record for it, with the latest payload and the refreshed expiry.
\<close>

theorem set_upserts_one_record:
  assumes "init e w = (Inr u, e1, w1)" and "this_collection e1 = Some h"
    and "distinct (map sessionId (docs (w h)))"
  shows "\<exists>w2. set_op e w now now2 sid p = (Inr (), e1, w2)
          \<and> filter (\<lambda>d. sessionId d = this_prefix e @ sid) (docs (w2 h)) =
              [\<lparr>sessionId = this_prefix e @ sid, data = p,
                expiresMs = now + ttlMs (config e), updatedAt = now2\<rparr>]
          \<and> filter (\<lambda>d. sessionId d \<noteq> this_prefix e @ sid) (docs (w2 h)) =
              filter (\<lambda>d. sessionId d \<noteq> this_prefix e @ sid) (docs (w h))
          \<and> distinct (map sessionId (docs (w2 h)))
          \<and> (\<exists>w3. set_op e1 w2 now' now2' sid p' = (Inr (), e1, w3)
                \<and> filter (\<lambda>d. sessionId d = this_prefix e @ sid) (docs (w3 h)) =
                    [\<lparr>sessionId = this_prefix e @ sid, data = p',
                      expiresMs = now' + ttlMs (config e), updatedAt = now2'\<rparr>]
                \<and> filter (\<lambda>d. sessionId d \<noteq> this_prefix e @ sid) (docs (w3 h)) =
                    filter (\<lambda>d. sessionId d \<noteq> this_prefix e @ sid) (docs (w h)))"
proof -
  let ?k = "this_prefix e @ sid"
  obtain w2 where s: "set_op e w now now2 sid p = (Inr (), e1, w2)"
    and k2: "filter (\<lambda>d. sessionId d = ?k) (docs (w2 h)) =
               [\<lparr>sessionId = ?k, data = p, expiresMs = now + ttlMs (config e),
                 updatedAt = now2\<rparr>]"
    and o2: "filter (\<lambda>d. sessionId d \<noteq> ?k) (docs (w2 h)) =
             filter (\<lambda>d. sessionId d \<noteq> ?k) (docs (w h))"
    and d2: "distinct (map sessionId (docs (w2 h)))"
    using set_op_effect [OF assms, of now now2 sid p] by blast
  have pe: "this_prefix e1 = this_prefix e" "config e1 = config e"
    using init_keeps [OF assms(1)] by simp_all
  have i2: "init e1 w2 = (Inr (), e1, w2)" using assms(1) by (rule init_Inr_again)
  obtain w3 where s3: "set_op e1 w2 now' now2' sid p' = (Inr (), e1, w3)"
    and k3: "filter (\<lambda>d. sessionId d = ?k) (docs (w3 h)) =
               [\<lparr>sessionId = ?k, data = p', expiresMs = now' + ttlMs (config e),
                 updatedAt = now2'\<rparr>]"
    and o3: "filter (\<lambda>d. sessionId d \<noteq> ?k) (docs (w3 h)) =
             filter (\<lambda>d. sessionId d \<noteq> ?k) (docs (w2 h))"
    using set_op_effect [OF i2 assms(2) d2, of now' now2' sid p'] unfolding pe by blast
  have o3': "filter (\<lambda>d. sessionId d \<noteq> ?k) (docs (w3 h)) =
             filter (\<lambda>d. sessionId d \<noteq> ?k) (docs (w h))"
    using o3 o2 by (rule trans)
  have nested: "\<exists>w3. set_op e1 w2 now' now2' sid p' = (Inr (), e1, w3)
          \<and> filter (\<lambda>d. sessionId d = ?k) (docs (w3 h)) =
               [\<lparr>sessionId = ?k, data = p', expiresMs = now' + ttlMs (config e),
                 updatedAt = now2'\<rparr>]
          \<and> filter (\<lambda>d. sessionId d \<noteq> ?k) (docs (w3 h)) =
              filter (\<lambda>d. sessionId d \<noteq> ?k) (docs (w h))"
    by (rule exI [of _ w3]) (intro conjI s3 k3 o3')
  show ?thesis
    by (rule exI [of _ w2]) (intro conjI s k2 o2 d2 nested)
qed

text \<open>
  Writing id \<open>abc\<close> over the sample collection at 20000 replaces its record in place.
\<close>

theorem set_upserts_one_record_witness:
  "distinct (map sessionId (docs (sample_storage test_handle)))
   \<and> docs (snd (snd (set_op fresh_engine sample_storage 20000 20001 ''abc'' 9)) test_handle) =
       [\<lparr>sessionId = ''p:abc'', data = 9, expiresMs = 30000, updatedAt = 20001\<rparr>,
        \<lparr>sessionId = ''p:old'', data = 3, expiresMs = 500, updatedAt = 0\<rparr>]
   \<and> filter (\<lambda>d. sessionId d = ''p:abc'')
        (docs (snd (snd (set_op fresh_engine sample_storage 20000 20001 ''abc'' 9)) test_handle)) =
       [\<lparr>sessionId = ''p:abc'', data = 9, expiresMs = 30000, updatedAt = 20001\<rparr>]"
proof -
  note i = init_fresh_engine [of sample_storage, OF sample_storage_docs(2)]
  have d: "distinct (map sessionId (docs (sample_storage test_handle)))"
    by (simp add: sample_storage_docs)
  from set_upserts_one_record [OF i d, of 20000 20001 "''abc''" 9]
  obtain w2 where
    r: "set_op fresh_engine sample_storage 20000 20001 ''abc'' 9 =
          (Inr (), fst (snd (init fresh_engine sample_storage)), w2)"
    and k: "filter (\<lambda>d. sessionId d = this_prefix fresh_engine @ ''abc'') (docs (w2 test_handle)) =
          [\<lparr>sessionId = this_prefix fresh_engine @ ''abc'', data = 9,
            expiresMs = 20000 + ttlMs (config fresh_engine), updatedAt = 20001\<rparr>]"
    by blast
  have c: "docs (snd (snd (set_op fresh_engine sample_storage 20000 20001 ''abc'' 9)) test_handle) =
       [\<lparr>sessionId = ''p:abc'', data = 9, expiresMs = 30000, updatedAt = 20001\<rparr>,
        \<lparr>sessionId = ''p:old'', data = 3, expiresMs = 500, updatedAt = 0\<rparr>]"
    using init_docs [OF i(1), of test_handle]
    by (simp add: set_op_ok [OF i] updateOne_def sample_storage_docs test_config_def)
  have "filter (\<lambda>d. sessionId d = ''p:abc'')
        (docs (snd (snd (set_op fresh_engine sample_storage 20000 20001 ''abc'' 9)) test_handle)) =
       [\<lparr>sessionId = ''p:abc'', data = 9, expiresMs = 30000, updatedAt = 20001\<rparr>]"
    using k by (simp add: r sample_storage_docs test_config_def)
  with c d show ?thesis by simp
qed

text \<open>
  C5. \<open>getSid(id) = prefix + id\<close>, the prefix being the configured one or the empty
  string. After \<open>set(id, payload)\<close> a storage lookup for \<open>prefix + id\<close> finds the record
  written; \<open>get(id)\<close> on the same engine returns the payload while the record is live; for
  a non-empty prefix a lookup for the unprefixed id finds nothing (when no such record was
  there before); and \<open>destroy(id)\<close> removes the record keyed \<open>prefix + id\<close>.
\<close>

theorem key_namespacing:
  assumes "init e w = (Inr u, e1, w1)" and "this_collection e1 = Some h"
    and "distinct (map sessionId (docs (w h)))"
  shows "getSid e sid = this_prefix e @ sid
       \<and> getSid (constructor cfg) sid = or_empty (prefix cfg) @ sid
       \<and> (\<exists>w2. set_op e w now now2 sid p = (Inr (), e1, w2)
            \<and> findOne (\<lambda>d. sessionId d = this_prefix e @ sid) (w2 h) =
                Some \<lparr>sessionId = this_prefix e @ sid, data = p,
                      expiresMs = now + ttlMs (config e), updatedAt = now2\<rparr>
            \<and> (t < now + ttlMs (config e) \<longrightarrow> get e1 w2 t sid = (Inr (Some p), e1, w2))
            \<and> (this_prefix e \<noteq> [] \<and> findOne (\<lambda>d. sessionId d = sid) (w h) = None \<longrightarrow>
                 findOne (\<lambda>d. sessionId d = sid) (w2 h) = None)
            \<and> (\<exists>w3. destroy e1 w2 sid = (Inr (), e1, w3)
                  \<and> findOne (\<lambda>d. sessionId d = this_prefix e @ sid) (w3 h) = None))"
proof -
  let ?k = "this_prefix e @ sid"
  let ?y = "\<lparr>sessionId = ?k, data = p, expiresMs = now + ttlMs (config e), updatedAt = now2\<rparr>"
  obtain w2 where s: "set_op e w now now2 sid p = (Inr (), e1, w2)"
    and k2: "filter (\<lambda>d. sessionId d = ?k) (docs (w2 h)) = [?y]"
    and o2: "filter (\<lambda>d. sessionId d \<noteq> ?k) (docs (w2 h)) =
             filter (\<lambda>d. sessionId d \<noteq> ?k) (docs (w h))"
    and d2: "distinct (map sessionId (docs (w2 h)))"
    using set_op_effect [OF assms, of now now2 sid p] by blast
  have pe: "this_prefix e1 = this_prefix e" "config e1 = config e"
    using init_keeps [OF assms(1)] by simp_all
  have i2: "init e1 w2 = (Inr (), e1, w2)" using assms(1) by (rule init_Inr_again)
  have f: "findOne (\<lambda>d. sessionId d = ?k) (w2 h) = Some ?y"
    using k2 by (simp add: findOne_def find_key_single)
  have mem: "?y \<in> set (docs (w2 h))"
  proof -
    have "?y \<in> set (filter (\<lambda>d. sessionId d = ?k) (docs (w2 h)))" by (simp only: k2) simp
    then show ?thesis by simp
  qed
  have g: "get e1 w2 t sid = (Inr (Some p), e1, w2)" if "t < now + ttlMs (config e)"
    using get_ok [OF i2 assms(2), of t sid]
      find_unique_key [OF d2 mem, of ?k "\<lambda>d. t < expiresMs d"] that pe
    by simp
  have n: "findOne (\<lambda>d. sessionId d = sid) (w2 h) = None"
    if "this_prefix e \<noteq> []" "findOne (\<lambda>d. sessionId d = sid) (w h) = None"
  proof -
    have ne: "?k \<noteq> sid" using that(1) by simp
    have "\<forall>d \<in> set (docs (w h)). sessionId d \<noteq> sid"
      using that(2) by (simp add: findOne_def find_None_iff)
    then have "filter (\<lambda>d. sessionId d = sid) (filter (\<lambda>d. sessionId d \<noteq> ?k) (docs (w h))) = []"
      by (simp add: filter_empty_conv)
    then have "filter (\<lambda>d. sessionId d = sid) (filter (\<lambda>d. sessionId d \<noteq> ?k) (docs (w2 h))) = []"
      by (simp only: o2)
    then have "\<forall>d \<in> set (docs (w2 h)). sessionId d \<noteq> sid"
      using ne by (auto simp: filter_empty_conv)
    then show ?thesis by (simp add: findOne_def find_None_iff)
  qed
  let ?w3 = "w2(h := deleteOne (\<lambda>d. sessionId d = ?k) (w2 h))"
  have dd: "destroy e1 w2 sid = (Inr (), e1, ?w3)"
    using destroy_ok [OF i2 assms(2), of sid] pe by simp
  have df: "findOne (\<lambda>d. sessionId d = ?k) (?w3 h) = None"
    using d2 by (simp add: findOne_def deleteOne_key)
  have a: "getSid e sid = ?k" by (simp add: getSid_def)
  have b: "getSid (constructor cfg) sid = or_empty (prefix cfg) @ sid"
    by (simp add: getSid_def constructor_def)
  have c: "\<exists>w3. destroy e1 w2 sid = (Inr (), e1, w3)
                  \<and> findOne (\<lambda>d. sessionId d = ?k) (w3 h) = None"
    by (rule exI [of _ ?w3]) (intro conjI dd df)
  have g': "t < now + ttlMs (config e) \<longrightarrow> get e1 w2 t sid = (Inr (Some p), e1, w2)"
    using g by simp
  have n': "this_prefix e \<noteq> [] \<and> findOne (\<lambda>d. sessionId d = sid) (w h) = None \<longrightarrow>
                 findOne (\<lambda>d. sessionId d = sid) (w2 h) = None"
    using n by simp
  have "\<exists>w2. set_op e w now now2 sid p = (Inr (), e1, w2)
            \<and> findOne (\<lambda>d. sessionId d = this_prefix e @ sid) (w2 h) =
                Some \<lparr>sessionId = this_prefix e @ sid, data = p,
                      expiresMs = now + ttlMs (config e), updatedAt = now2\<rparr>
            \<and> (t < now + ttlMs (config e) \<longrightarrow> get e1 w2 t sid = (Inr (Some p), e1, w2))
            \<and> (this_prefix e \<noteq> [] \<and> findOne (\<lambda>d. sessionId d = sid) (w h) = None \<longrightarrow>
                 findOne (\<lambda>d. sessionId d = sid) (w2 h) = None)
            \<and> (\<exists>w3. destroy e1 w2 sid = (Inr (), e1, w3)
                  \<and> findOne (\<lambda>d. sessionId d = this_prefix e @ sid) (w3 h) = None)"
    by (rule exI [of _ w2]) (intro conjI s f g' n' c)
  with a b show ?thesis by (intro conjI)
qed

text \<open>
  Prefix \<open>p:\<close> and id \<open>abc\<close> on an empty collection: the record is stored under
  \<open>p:abc\<close>, and nothing is stored under \<open>abc\<close>.
\<close>

theorem key_namespacing_witness:
  "distinct (map sessionId (docs ((empty_storage :: nat Storage) test_handle)))
   \<and> getSid fresh_engine ''abc'' = ''p:abc''
   \<and> findOne (\<lambda>d. sessionId d = ''p:abc'')
        (snd (snd (set_op fresh_engine empty_storage 0 0 ''abc'' (5::nat))) test_handle) =
       Some \<lparr>sessionId = ''p:abc'', data = 5, expiresMs = 10000, updatedAt = 0\<rparr>
   \<and> findOne (\<lambda>d. sessionId d = ''abc'')
        (snd (snd (set_op fresh_engine empty_storage 0 0 ''abc'' (5::nat))) test_handle) = None"
proof -
  note i = init_fresh_engine [of "empty_storage :: nat Storage", OF sample_storage_docs(3)]
  have d: "distinct (map sessionId (docs ((empty_storage :: nat Storage) test_handle)))"
    by (simp add: sample_storage_docs)
  note t = key_namespacing [OF i d, of "''abc''" cfg 0 0 5 t]
  from t have g: "getSid fresh_engine ''abc'' = ''p:abc''"
    by (simp add: sample_storage_docs)
  from t obtain w2 where
    r: "set_op fresh_engine (empty_storage :: nat Storage) 0 0 ''abc'' 5 =
          (Inr (), fst (snd (init fresh_engine (empty_storage :: nat Storage))), w2)"
    and f: "findOne (\<lambda>d. sessionId d = this_prefix fresh_engine @ ''abc'') (w2 test_handle) =
          Some \<lparr>sessionId = this_prefix fresh_engine @ ''abc'', data = 5,
                expiresMs = 0 + ttlMs (config fresh_engine), updatedAt = 0\<rparr>"
    and n: "this_prefix fresh_engine \<noteq> []
            \<and> findOne (\<lambda>d. sessionId d = ''abc'') ((empty_storage :: nat Storage) test_handle) = None
            \<longrightarrow> findOne (\<lambda>d. sessionId d = ''abc'') (w2 test_handle) = None"
    by blast
  have "findOne (\<lambda>d. sessionId d = ''p:abc'')
        (snd (snd (set_op fresh_engine empty_storage 0 0 ''abc'' (5::nat))) test_handle) =
       Some \<lparr>sessionId = ''p:abc'', data = 5, expiresMs = 10000, updatedAt = 0\<rparr>"
    using f by (simp add: r sample_storage_docs test_config_def)
  moreover have "findOne (\<lambda>d. sessionId d = ''abc'')
        (snd (snd (set_op fresh_engine empty_storage 0 0 ''abc'' (5::nat))) test_handle) = None"
    using n by (simp add: r sample_storage_docs findOne_def)
  ultimately show ?thesis using d g by simp
qed

text \<open>
  C6. On an engine whose client field is unset, \<open>init\<close> checks the storage handle, the
  database name and the collection name in that order and fails with the error of the
  first one missing (the messages carry the package name in front), leaving engine and
  storage as they were: no index is requested. Whatever error \<open>init\<close> fails with is the
  result of the operation that called it, for each of the eight operations.
\<close>

theorem init_validates_in_order:
  assumes "this_client e = None"
  shows "(client (config e) = None \<longrightarrow>
            init e w = (Inl (Error ''express-session-mongo: client not defined''), e, w))
       \<and> (client (config e) \<noteq> None \<and> falsy (dbName (config e)) \<longrightarrow>
            init e w = (Inl (Error ''express-session-mongo: dbName not defined''), e, w))
       \<and> (client (config e) \<noteq> None \<and> \<not> falsy (dbName (config e))
            \<and> falsy (collection (config e)) \<longrightarrow>
            init e w = (Inl (Error ''express-session-mongo: collection not defined''), e, w))
       \<and> (init e w = (Inl err, e', w') \<longrightarrow>
            get e w now sid = (Inl err, e', w')
            \<and> set_op e w now now2 sid p = (Inl err, e', w')
            \<and> destroy e w sid = (Inl err, e', w')
            \<and> all_op e w now = (Inl err, e', w')
            \<and> length_op e w now = (Inl err, e', w')
            \<and> clear e w = (Inl err, e', w')
            \<and> touch e w now now2 sid p = (Inl err, e', w')
            \<and> removeExpiredSessions e w now = (Inl err, e', w'))"
proof -
  have a: "client (config e) = None \<longrightarrow>
            init e w = (Inl (Error ''express-session-mongo: client not defined''), e, w)"
    using assms by (simp add: init_def)
  have b: "client (config e) \<noteq> None \<and> falsy (dbName (config e)) \<longrightarrow>
            init e w = (Inl (Error ''express-session-mongo: dbName not defined''), e, w)"
    using assms by (simp add: init_def)
  have c: "client (config e) \<noteq> None \<and> \<not> falsy (dbName (config e))
            \<and> falsy (collection (config e)) \<longrightarrow>
            init e w = (Inl (Error ''express-session-mongo: collection not defined''), e, w)"
    using assms by (simp add: init_def)
  have d: "init e w = (Inl err, e', w') \<longrightarrow>
            get e w now sid = (Inl err, e', w')
            \<and> set_op e w now now2 sid p = (Inl err, e', w')
            \<and> destroy e w sid = (Inl err, e', w')
            \<and> all_op e w now = (Inl err, e', w')
            \<and> length_op e w now = (Inl err, e', w')
            \<and> clear e w = (Inl err, e', w')
            \<and> touch e w now now2 sid p = (Inl err, e', w')
            \<and> removeExpiredSessions e w now = (Inl err, e', w')"
    by (simp add: get_def set_op_def destroy_def all_op_def length_op_def clear_def
        touch_def removeExpiredSessions_def with_collection_error)
  from a b c d show ?thesis by (intro conjI)
qed

text \<open>
  With the database name and the collection name both missing, the error is the one for
  the database name, and it is what \<open>get\<close> returns.
\<close>

theorem init_validates_in_order_witness:
  "this_client unconfigured_engine = None
   \<and> falsy (dbName (config unconfigured_engine))
   \<and> falsy (collection (config unconfigured_engine))
   \<and> init unconfigured_engine sample_storage =
       (Inl (Error ''express-session-mongo: dbName not defined''), unconfigured_engine,
        sample_storage)
   \<and> get unconfigured_engine sample_storage 0 ''abc'' =
       (Inl (Error ''express-session-mongo: dbName not defined''), unconfigured_engine,
        sample_storage)"
proof -
  have n: "this_client unconfigured_engine = None"
    by (simp add: unconfigured_engine_def fixture_defs)
  have c: "client (config unconfigured_engine) \<noteq> None"
    "falsy (dbName (config unconfigured_engine))"
    "falsy (collection (config unconfigured_engine))"
    by (simp_all add: unconfigured_engine_def fixture_defs)
  note t = init_validates_in_order [OF n, of sample_storage
      "Error ''express-session-mongo: dbName not defined''" unconfigured_engine sample_storage
      0 "''abc''" 0 0]
  from t c have i: "init unconfigured_engine sample_storage =
       (Inl (Error ''express-session-mongo: dbName not defined''), unconfigured_engine,
        sample_storage)"
    by blast
  with t have "get unconfigured_engine sample_storage 0 ''abc'' =
       (Inl (Error ''express-session-mongo: dbName not defined''), unconfigured_engine,
        sample_storage)"
    by blast
  with n c i show ?thesis by simp
qed

text \<open>
  C7. On an engine whose initialization succeeds, if the collection holds \<open>N\<close> records with
  expiry strictly greater than now and \<open>M\<close> others, then \<open>length()\<close> returns \<open>N\<close> and
  \<open>all()\<close> returns the payloads of exactly the live records, \<open>N\<close> of them, while the
  collection holds \<open>N + M\<close> records.
\<close>

theorem length_all_agree:
  assumes "init e w = (Inr u, e1, w1)" and "this_collection e1 = Some h"
    and "length (filter (\<lambda>d. now < expiresMs d) (docs (w h))) = N"
    and "length (filter (\<lambda>d. \<not> now < expiresMs d) (docs (w h))) = M"
  shows "length_op e w now = (Inr N, e1, w1)
       \<and> all_op e w now = (Inr (map data (filter (\<lambda>d. now < expiresMs d) (docs (w h)))), e1, w1)
       \<and> (\<exists>ps. all_op e w now = (Inr ps, e1, w1) \<and> length ps = N)
       \<and> length (docs (w h)) = N + M"
  using length_op_ok [OF assms(1,2), of now] all_op_ok [OF assms(1,2), of now] assms(3,4)
    length_filter_split [of "docs (w h)" "\<lambda>d. now < expiresMs d"]
  by simp

text \<open>The sample collection at 9999: one live record, one expired.\<close>

theorem length_all_agree_witness:
  "length (filter (\<lambda>d. 9999 < expiresMs d) (docs (sample_storage test_handle))) = 1
   \<and> length (filter (\<lambda>d. \<not> 9999 < expiresMs d) (docs (sample_storage test_handle))) = 1
   \<and> fst (length_op fresh_engine sample_storage 9999) = Inr 1
   \<and> fst (all_op fresh_engine sample_storage 9999) = Inr [7]"
proof -
  note i = init_fresh_engine [of sample_storage, OF sample_storage_docs(2)]
  have a: "length (filter (\<lambda>d. 9999 < expiresMs d) (docs (sample_storage test_handle))) = 1"
    and b: "length (filter (\<lambda>d. \<not> 9999 < expiresMs d) (docs (sample_storage test_handle))) = 1"
    by (simp_all add: sample_storage_docs)
  note t = length_all_agree [OF i a b]
  from t have "fst (length_op fresh_engine sample_storage 9999) = Inr 1" by simp
  moreover from t have "fst (all_op fresh_engine sample_storage 9999) = Inr [7]"
    by (simp add: sample_storage_docs)
  ultimately show ?thesis using a b by simp
qed

text \<open>
  C8. For every id and payload, \<open>touch(id, payload)\<close> is \<open>set(id, payload)\<close>: on every
  engine and storage, whatever initialization does, both settle to the same result and
  leave the same engine and the same storage. There is no touch-only behaviour.
\<close>

theorem touch_is_set: "touch e w now now2 sid session = set_op e w now now2 sid session"
proof (cases "init e w" rule: prod_cases3)
  case (fields r e1 w1)
  show ?thesis
  proof (cases r)
    case (Inl err)
    with fields show ?thesis by (simp add: touch_def set_op_def with_collection_def)
  next
    case (Inr u)
    with fields have "init e1 w1 = (Inr (), e1, w1)" by (simp add: init_Inr_again)
    with fields Inr show ?thesis by (simp add: touch_def set_op_def with_collection_def)
  qed
qed

text \<open>
  C9. On an engine whose initialization succeeds, \<open>clear()\<close> succeeds and leaves the
  collection without any record, live or expired; \<open>length()\<close> then returns 0 and
  \<open>all()\<close> the empty sequence, at any time.
\<close>

theorem clear_removes_everything:
  assumes "init e w = (Inr u, e1, w1)" and "this_collection e1 = Some h"
  shows "\<exists>w2. clear e w = (Inr (), e1, w2) \<and> docs (w2 h) = []
          \<and> length_op e1 w2 now = (Inr 0, e1, w2)
          \<and> all_op e1 w2 now = (Inr [], e1, w2)"
proof -
  let ?w2 = "w1(h := deleteMany (\<lambda>d. True) (w1 h))"
  have c: "clear e w = (Inr (), e1, ?w2)" by (rule clear_ok [OF assms])
  have d: "docs (?w2 h) = []" by (simp add: deleteMany_def)
  have i: "init e1 ?w2 = (Inr (), e1, ?w2)" using assms(1) by (rule init_Inr_again)
  have "length_op e1 ?w2 now = (Inr 0, e1, ?w2)"
    using length_op_ok [OF i assms(2), of now] d by simp
  moreover have "all_op e1 ?w2 now = (Inr [], e1, ?w2)"
    using all_op_ok [OF i assms(2), of now] d by simp
  ultimately show ?thesis using c d by blast
qed

text \<open>Clearing the sample collection, which holds a live and an expired record.\<close>

theorem clear_removes_everything_witness:
  "docs (snd (snd (clear fresh_engine sample_storage)) test_handle) = []
   \<and> fst (length_op (fst (snd (clear fresh_engine sample_storage)))
            (snd (snd (clear fresh_engine sample_storage))) 0) = Inr 0
   \<and> fst (all_op (fst (snd (clear fresh_engine sample_storage)))
            (snd (snd (clear fresh_engine sample_storage))) 0) = Inr []"
proof -
  note i = init_fresh_engine [of sample_storage, OF sample_storage_docs(2)]
  from clear_removes_everything [OF i, of 0]
  obtain w2 where r: "clear fresh_engine sample_storage =
        (Inr (), fst (snd (init fresh_engine sample_storage)), w2)"
    and d: "docs (w2 test_handle) = []"
    and l: "length_op (fst (snd (init fresh_engine sample_storage))) w2 0 =
        (Inr 0, fst (snd (init fresh_engine sample_storage)), w2)"
    and a: "all_op (fst (snd (init fresh_engine sample_storage))) w2 0 =
        (Inr [], fst (snd (init fresh_engine sample_storage)), w2)"
    by blast
  show ?thesis by (simp add: r d l a)
qed

text \<open>
  C10. If \<open>init\<close> on a fresh engine fails with a storage error, then the three
  configuration checks had passed, the failing request is one of the setup sequence and
  the storage has received the sequence up to it and nothing after it; the client field
  is assigned and \<open>hasInit\<close> is still false. Every later \<open>init\<close> returns at once without
  error, leaving the engine (so \<open>hasInit\<close> stays false) and the storage (so the
  remaining indexes are never requested) unchanged, and operations such as \<open>get\<close> and
  \<open>set\<close> proceed.
\<close>

theorem index_failure_keeps_client:
  assumes "this_client e = None" and "\<not> hasInit e"
    and "init e w = (Inl (StorageError n), e1, w1)"
  shows "client (config e) \<noteq> None \<and> \<not> falsy (dbName (config e))
         \<and> \<not> falsy (collection (config e))
       \<and> this_client e1 = client (config e) \<and> this_client e1 \<noteq> None
       \<and> \<not> hasInit e1
       \<and> (\<exists>pre spec post. schema (config e) = pre @ spec # post \<and> idx_name spec = n
             \<and> createIndex_calls (w1 (handle_of (config e))) =
                 createIndex_calls (w (handle_of (config e))) @ pre @ [spec])
       \<and> init e1 w' = (Inr (), e1, w')
       \<and> (\<exists>r. get e1 w' now sid = (Inr r, e1, w'))
       \<and> (\<exists>w2. set_op e1 w' now now2 sid p = (Inr (), e1, w2))"
proof -
  let ?h = "handle_of (config e)"
  note c = init_storage_error_cases [OF assms(1,3)]
  from c have checks: "client (config e) \<noteq> None" "\<not> falsy (dbName (config e))"
      "\<not> falsy (collection (config e))"
    by simp_all
  from c have e1: "e1 = e\<lparr>this_client := client (config e), this_collection := Some ?h\<rparr>"
    by simp
  from c obtain pre spec post where s: "schema (config e) = pre @ spec # post"
      "idx_name spec = n"
      "w1 = w(?h := (w ?h)\<lparr>createIndex_calls := createIndex_calls (w ?h) @ pre @ [spec]\<rparr>)"
    by blast
  have cl: "this_client e1 = client (config e)" "this_collection e1 = Some ?h" "\<not> hasInit e1"
    using e1 assms(2) by simp_all
  obtain cl' where cl': "this_client e1 = Some cl'" using cl(1) checks(1) by auto
  have i: "init e1 w' = (Inr (), e1, w')" using cl' by (rule init_ready)
  have calls: "\<exists>pre spec post. schema (config e) = pre @ spec # post \<and> idx_name spec = n
             \<and> createIndex_calls (w1 ?h) = createIndex_calls (w ?h) @ pre @ [spec]"
    apply (rule exI [of _ pre])
    apply (rule exI [of _ spec])
    apply (rule exI [of _ post])
    apply (simp add: s)
    done
  have g: "\<exists>r. get e1 w' now sid = (Inr r, e1, w')"
    using get_ok [OF i cl(2), of now sid] by blast
  have st: "\<exists>w2. set_op e1 w' now now2 sid p = (Inr (), e1, w2)"
    using set_op_ok [OF i cl(2), of now now2 sid p] by blast
  have ne: "this_client e1 \<noteq> None" using cl' by simp
  show ?thesis
    by (intro conjI checks cl(1) ne cl(3) calls i g st)
qed

text \<open>
  A storage on which creating \<open>session_id_expires_idx\<close> fails: the third index is never
  requested.
\<close>

theorem index_failure_keeps_client_witness:
  "this_client fresh_engine = None \<and> \<not> hasInit fresh_engine
   \<and> fst (init fresh_engine faulty_storage) = Inl (StorageError ''session_id_expires_idx'')
   \<and> this_client (fst (snd (init fresh_engine faulty_storage))) = Some MongoClient
   \<and> \<not> hasInit (fst (snd (init fresh_engine faulty_storage)))
   \<and> init (fst (snd (init fresh_engine faulty_storage))) sample_storage =
       (Inr (), fst (snd (init fresh_engine faulty_storage)), sample_storage)
   \<and> map idx_name (createIndex_calls (snd (snd (init fresh_engine faulty_storage)) test_handle)) =
       [''session_id_idx'', ''session_id_expires_idx'']"
proof -
  have n: "this_client fresh_engine = None" "\<not> hasInit fresh_engine"
    by (simp_all add: fixture_defs)
  note t = index_failure_keeps_client [OF n init_faulty, of sample_storage 0 "''abc''" 0 0]
  have f: "fst (init fresh_engine faulty_storage) = Inl (StorageError ''session_id_expires_idx'')"
    using init_faulty by (simp add: prod_eq_iff)
  from t have a: "this_client (fst (snd (init fresh_engine faulty_storage))) = Some MongoClient"
    by (simp add: fixture_defs)
  from t have b: "\<not> hasInit (fst (snd (init fresh_engine faulty_storage)))" by simp
  from t have c: "init (fst (snd (init fresh_engine faulty_storage))) sample_storage =
       (Inr (), fst (snd (init fresh_engine faulty_storage)), sample_storage)" by simp
  have d: "map idx_name (createIndex_calls (snd (snd (init fresh_engine faulty_storage)) test_handle)) =
       [''session_id_idx'', ''session_id_expires_idx'']"
    by (simp add: init_def createIndex_def Let_def faulty_storage_def fixture_defs)
  from n f a b c d show ?thesis by simp
qed

end
